theory Spec2Isabelle
  imports Complex_Main "HOL-Library.Sublist"
begin

section \<open>Python values, errors and dictionaries\<close>

text \<open>
  The analyzer of \<^verbatim>\<open>performance_monitor.py\<close> works on report text, on dictionaries
  with string keys and on numbers. Exceptions are values of type \<open>error\<close>; a function
  that can raise returns \<open>error + 'a\<close>, with \<open>Inl\<close> for the exception.

  A Python \<^verbatim>\<open>float\<close> is modelled by the rational number it denotes: the rounding of a
  decimal literal to the nearest binary floating-point number, negative zero, infinities
  and NaN are outside the model. Report text is a list of 8-bit characters, read as the
  code points below 256.
\<close>

datatype error = ValueError | TypeError | KeyError | IndexError | OSError

datatype pyval = PNone | PInt int | PFloat rat | PStr string

definition and_then :: "error + 'a \<Rightarrow> ('a \<Rightarrow> error + 'b) \<Rightarrow> error + 'b" where
  \<comment> \<open>run the next statement unless the previous one raised\<close>
  "and_then m f = (case m of Inl e \<Rightarrow> Inl e | Inr x \<Rightarrow> f x)"

text \<open>
  A \<^verbatim>\<open>dict\<close> keeps its keys in insertion order: an association list with distinct keys.
  Assigning to a key that is present replaces the value in place, assigning to a new key
  appends.
\<close>

type_synonym 'v dict = "(string \<times> 'v) list"

fun dict_set :: "'v dict \<Rightarrow> string \<Rightarrow> 'v \<Rightarrow> 'v dict" where
  "dict_set [] k v = [(k, v)]"
| "dict_set ((k', v') # d) k v =
     (if k' = k then (k, v) # d else (k', v') # dict_set d k v)"

definition dict_item :: "'v dict \<Rightarrow> string \<Rightarrow> error + 'v" where
  \<comment> \<open>\<^verbatim>\<open>d[k]\<close>\<close>
  "dict_item d k = (case map_of d k of None \<Rightarrow> Inl KeyError | Some v \<Rightarrow> Inr v)"

definition dict_get :: "'v dict \<Rightarrow> string \<Rightarrow> 'v \<Rightarrow> 'v" where
  \<comment> \<open>\<^verbatim>\<open>d.get(k, default)\<close>\<close>
  "dict_get d k dflt = (case map_of d k of None \<Rightarrow> dflt | Some v \<Rightarrow> v)"

definition dict_set2 :: "('v dict) dict \<Rightarrow> string \<Rightarrow> string \<Rightarrow> 'v \<Rightarrow> error + ('v dict) dict" where
  \<comment> \<open>\<^verbatim>\<open>d[k1][k2] = v\<close>\<close>
  "dict_set2 d k1 k2 v =
     and_then (dict_item d k1) (\<lambda>inner. Inr (dict_set d k1 (dict_set inner k2 v)))"

section \<open>Regular expressions\<close>

text \<open>
  The patterns of the three parsers are concatenations of literal characters, greedy
  repetitions of a character class (\<^verbatim>\<open>\s*\<close>, \<^verbatim>\<open>\d+\<close>) and capturing groups around one
  greedy repetition (\<^verbatim>\<open>(\d+)\<close>, \<^verbatim>\<open>([\d.]+)\<close>, \<^verbatim>\<open>([-\d.]+)\<close>).
  \<open>is_space\<close> is \<^verbatim>\<open>\s\<close> and \<open>is_digit\<close> is \<^verbatim>\<open>\d\<close> of a \<^verbatim>\<open>str\<close> pattern, on code points
  below 256.
\<close>

definition is_space :: "char \<Rightarrow> bool" where
  "is_space c = (c \<in> set [CHR 0x09, CHR 0x0A, CHR 0x0B, CHR 0x0C, CHR 0x0D, CHR 0x1C,
     CHR 0x1D, CHR 0x1E, CHR 0x1F, CHR 0x20, CHR 0x85, CHR 0xA0])"

definition is_digit :: "char \<Rightarrow> bool" where
  "is_digit c = (c \<in> set ''0123456789'')"

definition is_digit_dot :: "char \<Rightarrow> bool" where
  \<comment> \<open>\<^verbatim>\<open>[\d.]\<close>\<close>
  "is_digit_dot c = (is_digit c \<or> c = CHR ''.'')"

definition is_sign_digit_dot :: "char \<Rightarrow> bool" where
  \<comment> \<open>\<^verbatim>\<open>[-\d.]\<close>\<close>
  "is_sign_digit_dot c = (c = CHR ''-'' \<or> is_digit c \<or> c = CHR ''.'')"

datatype item =
    Chr char  \<comment> \<open>a literal character\<close>
  | Star "char \<Rightarrow> bool"  \<comment> \<open>\<^verbatim>\<open>c*\<close>, greedy\<close>
  | Plus "char \<Rightarrow> bool"  \<comment> \<open>\<^verbatim>\<open>c+\<close>, greedy\<close>
  | Group "char \<Rightarrow> bool"  \<comment> \<open>\<^verbatim>\<open>(c+)\<close>, greedy and capturing\<close>

type_synonym regex = "item list"

definition lit :: "string \<Rightarrow> regex" where
  "lit s = map Chr s"

text \<open>
  \<open>splits p s\<close> lists the ways a greedy repetition of \<open>p\<close> can consume a prefix of \<open>s\<close>,
  in the order the backtracking matcher tries them: the longest run first, then one
  character less each time.
\<close>

fun splits :: "(char \<Rightarrow> bool) \<Rightarrow> string \<Rightarrow> (string \<times> string) list" where
  "splits p [] = [([], [])]"
| "splits p (c # s) =
     (if p c then map (\<lambda>(a, r). (c # a, r)) (splits p s) @ [([], c # s)] else [([], c # s)])"

text \<open>
  \<open>match_items re s\<close> lists every way \<open>re\<close> matches a prefix of \<open>s\<close> (the captured groups
  and the text left over), in the matcher's order of preference. The match Python
  reports is the first one.
\<close>

fun match_items :: "regex \<Rightarrow> string \<Rightarrow> (string list \<times> string) list" where
  "match_items [] s = [([], s)]"
| "match_items (Chr c # re) s =
     (case s of [] \<Rightarrow> [] | x # xs \<Rightarrow> if x = c then match_items re xs else [])"
| "match_items (Star p # re) s =
     concat (map (\<lambda>(a, r). match_items re r) (splits p s))"
| "match_items (Plus p # re) s =
     concat (map (\<lambda>(a, r). if a = [] then [] else match_items re r) (splits p s))"
| "match_items (Group p # re) s =
     concat (map (\<lambda>(a, r). if a = [] then []
                            else map (\<lambda>(caps, rest). (a # caps, rest)) (match_items re r))
                 (splits p s))"

definition re_match :: "regex \<Rightarrow> string \<Rightarrow> string list option" where
  \<comment> \<open>\<^verbatim>\<open>re.match\<close>: the groups of the preferred match at the start of \<open>s\<close>\<close>
  "re_match re s = (case match_items re s of [] \<Rightarrow> None | (caps, rest) # _ \<Rightarrow> Some caps)"

fun re_search :: "regex \<Rightarrow> string \<Rightarrow> string list option" where
  \<comment> \<open>\<^verbatim>\<open>re.search\<close>: the match at the leftmost position that has one\<close>
  "re_search re [] = re_match re []"
| "re_search re (c # s) =
     (case re_match re (c # s) of Some m \<Rightarrow> Some m | None \<Rightarrow> re_search re s)"

definition m_group :: "string list \<Rightarrow> nat \<Rightarrow> error + string" where
  \<comment> \<open>\<^verbatim>\<open>m.group(n)\<close> for \<open>n \<ge> 1\<close>\<close>
  "m_group gs n = (if 0 < n \<and> n \<le> length gs then Inr (gs ! (n - 1)) else Inl IndexError)"

section \<open>Conversions\<close>

text \<open>
  \<^verbatim>\<open>int\<close> and \<^verbatim>\<open>float\<close> on the text of a group. A group holds only digits, \<^verbatim>\<open>.\<close> and
  \<^verbatim>\<open>-\<close>, so the conversions are modelled on signed decimal numerals: exponents,
  underscores, blanks and the words \<^verbatim>\<open>inf\<close> and \<^verbatim>\<open>nan\<close> cannot reach them. The
  interpreter's optional limit on the number of digits of an integer is not modelled.
\<close>

definition digit_val :: "char \<Rightarrow> nat" where
  "digit_val c = of_char c - 48"

definition digits_val :: "string \<Rightarrow> nat" where
  "digits_val s = foldl (\<lambda>n c. 10 * n + digit_val c) 0 s"

definition decimal_value :: "string \<Rightarrow> rat option" where
  \<comment> \<open>digits, optionally with one point, at least one digit\<close>
  "decimal_value s =
     (let ip = takeWhile is_digit s; r = dropWhile is_digit s in
      case r of
        [] \<Rightarrow> if ip = [] then None else Some (of_nat (digits_val ip))
      | c # fp \<Rightarrow>
          if c = CHR ''.'' \<and> list_all is_digit fp \<and> (ip \<noteq> [] \<or> fp \<noteq> [])
          then Some (of_nat (digits_val ip) + of_nat (digits_val fp) / 10 ^ length fp)
          else None)"

definition py_float :: "string \<Rightarrow> error + rat" where
  "py_float s =
     (case s of
        [] \<Rightarrow> Inl ValueError
      | c # t \<Rightarrow>
          if c = CHR ''-'' then (case decimal_value t of None \<Rightarrow> Inl ValueError | Some v \<Rightarrow> Inr (- v))
          else if c = CHR ''+'' then (case decimal_value t of None \<Rightarrow> Inl ValueError | Some v \<Rightarrow> Inr v)
          else (case decimal_value s of None \<Rightarrow> Inl ValueError | Some v \<Rightarrow> Inr v))"

definition digits_int :: "string \<Rightarrow> int option" where
  "digits_int s = (if s \<noteq> [] \<and> list_all is_digit s then Some (int (digits_val s)) else None)"

definition py_int :: "string \<Rightarrow> error + int" where
  "py_int s =
     (case s of
        [] \<Rightarrow> Inl ValueError
      | c # t \<Rightarrow>
          if c = CHR ''-'' then (case digits_int t of None \<Rightarrow> Inl ValueError | Some v \<Rightarrow> Inr (- v))
          else if c = CHR ''+'' then (case digits_int t of None \<Rightarrow> Inl ValueError | Some v \<Rightarrow> Inr v)
          else (case digits_int s of None \<Rightarrow> Inl ValueError | Some v \<Rightarrow> Inr v))"

section \<open>The report parsers\<close>

text \<open>
  A report file is either readable, with its text, or a directory entry on which
  \<^verbatim>\<open>open\<close> or \<^verbatim>\<open>read\<close> raises.
\<close>

datatype node = File string | Unreadable

definition read_text :: "node \<Rightarrow> error + string" where
  "read_text f = (case f of File content \<Rightarrow> Inr content | Unreadable \<Rightarrow> Inl OSError)"

definition wns_pattern :: regex where
  \<comment> \<open>\<^verbatim>\<open>WNS\(ns\):\s*([-\d.]+)\<close>\<close>
  "wns_pattern = lit ''WNS(ns):'' @ [Star is_space, Group is_sign_digit_dot]"

definition tns_pattern :: regex where
  \<comment> \<open>\<^verbatim>\<open>TNS\(ns\):\s*([-\d.]+)\<close>\<close>
  "tns_pattern = lit ''TNS(ns):'' @ [Star is_space, Group is_sign_digit_dot]"

definition whs_pattern :: regex where
  \<comment> \<open>\<^verbatim>\<open>WHS\(ns\):\s*([-\d.]+)\<close>\<close>
  "whs_pattern = lit ''WHS(ns):'' @ [Star is_space, Group is_sign_digit_dot]"

definition endpoints_pattern :: regex where
  \<comment> \<open>\<^verbatim>\<open>Failing Endpoints:\s*(\d+)\<close>\<close>
  "endpoints_pattern = lit ''Failing Endpoints:'' @ [Star is_space, Group is_digit]"

definition util_row_pattern :: "string \<Rightarrow> regex" where
  \<comment> \<open>\<^verbatim>\<open>LABEL\s*\|\s*(\d+)\s*\|\s*\d+\s*\|\s*(\d+)\s*\|\s*([\d.]+)\<close>\<close>
  "util_row_pattern label = lit label @
     [Star is_space, Chr (CHR ''|''), Star is_space, Group is_digit,
      Star is_space, Chr (CHR ''|''), Star is_space, Plus is_digit,
      Star is_space, Chr (CHR ''|''), Star is_space, Group is_digit,
      Star is_space, Chr (CHR ''|''), Star is_space, Group is_digit_dot]"

definition lut_pattern :: regex where
  "lut_pattern = util_row_pattern ''CLB LUTs''"

definition ff_pattern :: regex where
  "ff_pattern = util_row_pattern ''CLB Registers''"

definition bram_pattern :: regex where
  "bram_pattern = util_row_pattern ''Block RAM Tile''"

definition dsp_pattern :: regex where
  "dsp_pattern = util_row_pattern ''DSPs''"

definition power_row_pattern :: "string \<Rightarrow> regex" where
  \<comment> \<open>\<^verbatim>\<open>LABEL\s*\|\s*([\d.]+)\<close>\<close>
  "power_row_pattern label = lit label @
     [Star is_space, Chr (CHR ''|''), Star is_space, Group is_digit_dot]"

definition total_pattern :: regex where
  "total_pattern = power_row_pattern ''Total On-Chip Power (W)''"

definition dynamic_pattern :: regex where
  "dynamic_pattern = power_row_pattern ''Dynamic (W)''"

definition static_pattern :: regex where
  "static_pattern = power_row_pattern ''Device Static (W)''"

text \<open>
  The step every scalar field repeats:
  \<^verbatim>\<open>m = re.search(p, content)\<close>, then \<^verbatim>\<open>if m: data[key] = float(m.group(1))\<close>
  (or \<^verbatim>\<open>int\<close>).
\<close>

definition set_float :: "string list option \<Rightarrow> pyval dict \<Rightarrow> string \<Rightarrow> error + pyval dict" where
  "set_float m data key =
     (case m of
        None \<Rightarrow> Inr data
      | Some gs \<Rightarrow>
          and_then (m_group gs 1) (\<lambda>g.
          and_then (py_float g) (\<lambda>v.
          Inr (dict_set data key (PFloat v)))))"

definition set_int :: "string list option \<Rightarrow> pyval dict \<Rightarrow> string \<Rightarrow> error + pyval dict" where
  "set_int m data key =
     (case m of
        None \<Rightarrow> Inr data
      | Some gs \<Rightarrow>
          and_then (m_group gs 1) (\<lambda>g.
          and_then (py_int g) (\<lambda>v.
          Inr (dict_set data key (PInt v)))))"

text \<open>
  The step of a utilization row: \<^verbatim>\<open>used\<close> and \<^verbatim>\<open>available\<close> from groups 1 and 2 by
  \<^verbatim>\<open>int\<close>, \<^verbatim>\<open>utilization\<close> from group 3 by \<^verbatim>\<open>float\<close>, in this order.
\<close>

definition set_util ::
  "string list option \<Rightarrow> (pyval dict) dict \<Rightarrow> string \<Rightarrow> error + (pyval dict) dict" where
  "set_util m util_data key =
     (case m of
        None \<Rightarrow> Inr util_data
      | Some gs \<Rightarrow>
          and_then (m_group gs 1) (\<lambda>g1.
          and_then (py_int g1) (\<lambda>used.
          and_then (dict_set2 util_data key ''used'' (PInt used)) (\<lambda>d1.
          and_then (m_group gs 2) (\<lambda>g2.
          and_then (py_int g2) (\<lambda>avail.
          and_then (dict_set2 d1 key ''available'' (PInt avail)) (\<lambda>d2.
          and_then (m_group gs 3) (\<lambda>g3.
          and_then (py_float g3) (\<lambda>pct.
          dict_set2 d2 key ''utilization'' (PFloat pct))))))))))"

definition timing_defaults :: "pyval dict" where
  "timing_defaults =
     [(''wns'', PNone), (''tns'', PNone), (''whs'', PNone), (''ths'', PNone),
      (''failing_endpoints'', PInt 0)]"

definition parse_timing_report :: "node \<Rightarrow> error + pyval dict" where
  "parse_timing_report report_file =
     (let timing_data = timing_defaults in
      and_then (read_text report_file) (\<lambda>content.
      and_then (set_float (re_search wns_pattern content) timing_data ''wns'') (\<lambda>d1.
      and_then (set_float (re_search tns_pattern content) d1 ''tns'') (\<lambda>d2.
      and_then (set_float (re_search whs_pattern content) d2 ''whs'') (\<lambda>d3.
      set_int (re_search endpoints_pattern content) d3 ''failing_endpoints'')))))"

definition util_entry_default :: "pyval dict" where
  "util_entry_default = [(''used'', PInt 0), (''available'', PInt 0), (''utilization'', PInt 0)]"

definition util_defaults :: "(pyval dict) dict" where
  "util_defaults =
     [(''lut'', util_entry_default), (''ff'', util_entry_default),
      (''bram'', util_entry_default), (''dsp'', util_entry_default)]"

definition parse_utilization_report :: "node \<Rightarrow> error + (pyval dict) dict" where
  "parse_utilization_report report_file =
     (let util_data = util_defaults in
      and_then (read_text report_file) (\<lambda>content.
      and_then (set_util (re_search lut_pattern content) util_data ''lut'') (\<lambda>d1.
      and_then (set_util (re_search ff_pattern content) d1 ''ff'') (\<lambda>d2.
      and_then (set_util (re_search bram_pattern content) d2 ''bram'') (\<lambda>d3.
      set_util (re_search dsp_pattern content) d3 ''dsp'')))))"

definition power_defaults :: "pyval dict" where
  "power_defaults =
     [(''total_power'', PInt 0), (''dynamic_power'', PInt 0), (''static_power'', PInt 0),
      (''confidence'', PStr ''Low'')]"

definition parse_power_report :: "node \<Rightarrow> error + pyval dict" where
  "parse_power_report report_file =
     (let power_data = power_defaults in
      and_then (read_text report_file) (\<lambda>content.
      and_then (set_float (re_search total_pattern content) power_data ''total_power'') (\<lambda>d1.
      and_then (set_float (re_search dynamic_pattern content) d1 ''dynamic_power'') (\<lambda>d2.
      set_float (re_search static_pattern content) d2 ''static_power''))))"

section \<open>The report collector\<close>

text \<open>
  The reports directory is the list of its entries, name and node, in the order the file
  system enumerates them. \<^verbatim>\<open>Path.glob\<close> keeps the entries whose name matches the pattern;
  in the three patterns of the collector every character but \<^verbatim>\<open>*\<close> stands for itself,
  and matching is case-sensitive.
\<close>

type_synonym directory = "(string \<times> node) list"

datatype gtok = GStar | GChr char

definition glob_pattern :: "string \<Rightarrow> gtok list" where
  "glob_pattern s = map (\<lambda>c. if c = CHR ''*'' then GStar else GChr c) s"

fun glob_match :: "gtok list \<Rightarrow> string \<Rightarrow> bool" where
  "glob_match [] s = (s = [])"
| "glob_match (GChr c # pat) s = (case s of [] \<Rightarrow> False | x # xs \<Rightarrow> x = c \<and> glob_match pat xs)"
| "glob_match (GStar # pat) s = (\<exists>t\<in>set (suffixes s). glob_match pat t)"

definition glob :: "directory \<Rightarrow> string \<Rightarrow> (string \<times> node) list" where
  "glob dir pat = filter (\<lambda>(name, f). glob_match (glob_pattern pat) name) dir"

definition rfind :: "char \<Rightarrow> string \<Rightarrow> nat option" where
  \<comment> \<open>\<^verbatim>\<open>s.rfind(c)\<close>, with \<open>None\<close> for \<^verbatim>\<open>-1\<close>\<close>
  "rfind c s =
     (if c \<in> set s then Some (length s - 1 - length (takeWhile (\<lambda>x. x \<noteq> c) (rev s))) else None)"

definition stem :: "string \<Rightarrow> string" where
  \<comment> \<open>\<^verbatim>\<open>PurePath.stem\<close>: the name without its last suffix\<close>
  "stem name =
     (case rfind (CHR ''.'') name of
        None \<Rightarrow> name
      | Some i \<Rightarrow> if 0 < i \<and> i < length name - 1 then take i name else name)"

record results =
  res_timestamp :: string
  res_timing :: "(pyval dict) dict"
  res_utilization :: "((pyval dict) dict) dict"
  res_power :: "(pyval dict) dict"

text \<open>
  The loop \<^verbatim>\<open>for f in files: mapping[f.stem] = parse(f)\<close>; it stops at the first parser
  that raises.
\<close>

fun parse_each :: "(node \<Rightarrow> error + 'v) \<Rightarrow> (string \<times> node) list \<Rightarrow> 'v dict \<Rightarrow> error + 'v dict" where
  "parse_each parse [] d = Inr d"
| "parse_each parse ((name, f) # fs) d =
     and_then (parse f) (\<lambda>v. parse_each parse fs (dict_set d (stem name) v))"

text \<open>\<open>now\<close> is the text of \<^verbatim>\<open>datetime.now().isoformat()\<close>.\<close>

definition analyze_all_reports :: "string \<Rightarrow> directory \<Rightarrow> error + results" where
  "analyze_all_reports now reports_dir =
     and_then (parse_each parse_timing_report (glob reports_dir ''*timing*.rpt'') []) (\<lambda>t.
     and_then (parse_each parse_utilization_report (glob reports_dir ''*utilization*.rpt'') []) (\<lambda>u.
     and_then (parse_each parse_power_report (glob reports_dir ''*power*.rpt'') []) (\<lambda>p.
     Inr \<lparr>res_timestamp = now, res_timing = t, res_utilization = u, res_power = p\<rparr>)))"

section \<open>The dashboard renderer\<close>

subsection \<open>Operations on values\<close>

text \<open>
  Comparing a number with \<^verbatim>\<open>None\<close> or with a string raises \<^verbatim>\<open>TypeError\<close>; the
  test \<^verbatim>\<open>==\<close> never raises. The format \<^verbatim>\<open>.Nf\<close> raises \<^verbatim>\<open>TypeError\<close> on \<^verbatim>\<open>None\<close>
  and \<^verbatim>\<open>ValueError\<close> on a string.
\<close>

definition py_num :: "pyval \<Rightarrow> rat option" where
  "py_num v = (case v of PInt i \<Rightarrow> Some (of_int i) | PFloat x \<Rightarrow> Some x
                | PNone \<Rightarrow> None | PStr s \<Rightarrow> None)"

definition py_lt :: "pyval \<Rightarrow> rat \<Rightarrow> error + bool" where
  "py_lt v n = (case py_num v of None \<Rightarrow> Inl TypeError | Some x \<Rightarrow> Inr (x < n))"

definition py_gt :: "pyval \<Rightarrow> rat \<Rightarrow> error + bool" where
  "py_gt v n = (case py_num v of None \<Rightarrow> Inl TypeError | Some x \<Rightarrow> Inr (x > n))"

definition py_ge :: "pyval \<Rightarrow> rat \<Rightarrow> error + bool" where
  "py_ge v n = (case py_num v of None \<Rightarrow> Inl TypeError | Some x \<Rightarrow> Inr (x \<ge> n))"

definition py_eq :: "pyval \<Rightarrow> rat \<Rightarrow> bool" where
  "py_eq v n = (py_num v = Some n)"

definition py_sub :: "pyval \<Rightarrow> pyval \<Rightarrow> error + pyval" where
  "py_sub a b =
     (case (a, b) of
        (PInt x, PInt y) \<Rightarrow> Inr (PInt (x - y))
      | _ \<Rightarrow> (case (py_num a, py_num b) of
                (Some x, Some y) \<Rightarrow> Inr (PFloat (x - y))
              | _ \<Rightarrow> Inl TypeError))"

text \<open>
  The decimal text of a float is the work of the interpreter; the renderer takes it as a
  parameter: \<open>fmt (Some n) x\<close> is \<^verbatim>\<open>format(x, '.nf')\<close> and \<open>fmt None x\<close> is \<^verbatim>\<open>str(x)\<close>.
\<close>

type_synonym float_format = "nat option \<Rightarrow> rat \<Rightarrow> string"

definition format_f :: "float_format \<Rightarrow> nat \<Rightarrow> pyval \<Rightarrow> error + string" where
  "format_f fmt n v =
     (case v of PInt i \<Rightarrow> Inr (fmt (Some n) (of_int i)) | PFloat x \<Rightarrow> Inr (fmt (Some n) x)
      | PNone \<Rightarrow> Inl TypeError | PStr s \<Rightarrow> Inl ValueError)"

fun str_nat :: "nat \<Rightarrow> string" where
  "str_nat n = (if n < 10 then [char_of (48 + n)] else str_nat (n div 10) @ [char_of (48 + n mod 10)])"

definition str_int :: "int \<Rightarrow> string" where
  "str_int i = (if i < 0 then ''-'' @ str_nat (nat (- i)) else str_nat (nat i))"

definition py_str :: "float_format \<Rightarrow> pyval \<Rightarrow> string" where
  "py_str fmt v =
     (case v of PNone \<Rightarrow> ''None'' | PInt i \<Rightarrow> str_int i | PFloat x \<Rightarrow> fmt None x | PStr s \<Rightarrow> s)"

definition upper :: "string \<Rightarrow> string" where
  \<comment> \<open>\<^verbatim>\<open>str.upper\<close> on ASCII text\<close>
  "upper s = map (\<lambda>c. if c \<in> set ''abcdefghijklmnopqrstuvwxyz''
                       then char_of (of_char c - (32::nat)) else c) s"

definition unlines :: "string list \<Rightarrow> string" where
  "unlines ls = concat (map (\<lambda>l. l @ [CHR 0x0A]) ls)"

fun map_result :: "('a \<Rightarrow> error + 'b) \<Rightarrow> 'a list \<Rightarrow> error + 'b list" where
  "map_result f [] = Inr []"
| "map_result f (x # xs) =
     and_then (f x) (\<lambda>y. and_then (map_result f xs) (\<lambda>ys. Inr (y # ys)))"

subsection \<open>Charts\<close>

text \<open>
  A chart is the data handed to the plotting library: bars with their colours, pie
  wedges with their title, trend lines. What the library draws from them, and the errors
  it can raise on its own, are not modelled. A plot function returns the files it saves.
\<close>

type_synonym bars = "(string \<times> pyval \<times> string) list"  \<comment> \<open>report, value, colour\<close>

type_synonym pie = "string \<times> pyval \<times> pyval"  \<comment> \<open>title and the two wedges\<close>

datatype chart =
    TimingChart bars bars bars bars
  | UtilizationChart "pie list"
  | PowerChart pie "string list" "pyval list" "pyval list" "pyval list"

datatype json = JNull | JInt int | JFloat rat | JString string | JObject "(string \<times> json) list"

datatype content = Png chart | Html string | Json json

definition bar_colors :: "(pyval \<Rightarrow> error + bool) \<Rightarrow> pyval list \<Rightarrow> error + string list" where
  "bar_colors is_red vs =
     map_result (\<lambda>v. and_then (is_red v) (\<lambda>b. Inr (if b then ''red'' else ''green''))) vs"

definition plot_timing_analysis :: "(pyval dict) dict \<Rightarrow> error + (string \<times> content) list" where
  "plot_timing_analysis timing_data =
     (if timing_data = [] then Inr []
      else
        let reports = map fst timing_data;
            wns_values = map (\<lambda>(r, d). dict_get d ''wns'' (PInt 0)) timing_data;
            tns_values = map (\<lambda>(r, d). dict_get d ''tns'' (PInt 0)) timing_data;
            whs_values = map (\<lambda>(r, d). dict_get d ''whs'' (PInt 0)) timing_data;
            failing_eps = map (\<lambda>(r, d). dict_get d ''failing_endpoints'' (PInt 0)) timing_data
        in
        and_then (bar_colors (\<lambda>w. py_lt w 0) wns_values) (\<lambda>wns_colors.
        and_then (bar_colors (\<lambda>t. py_lt t 0) tns_values) (\<lambda>tns_colors.
        and_then (bar_colors (\<lambda>w. py_lt w 0) whs_values) (\<lambda>whs_colors.
        and_then (bar_colors (\<lambda>f. py_gt f 0) failing_eps) (\<lambda>eps_colors.
        Inr [(''timing_analysis.png'',
              Png (TimingChart (zip reports (zip wns_values wns_colors))
                               (zip reports (zip tns_values tns_colors))
                               (zip reports (zip whs_values whs_colors))
                               (zip reports (zip failing_eps eps_colors))))])))))"

definition util_pie :: "float_format \<Rightarrow> (pyval dict) dict \<Rightarrow> string \<Rightarrow> string \<Rightarrow> error + pie" where
  "util_pie fmt util key title =
     and_then (dict_item util key) (\<lambda>entry.
     and_then (dict_item entry ''used'') (\<lambda>used.
     and_then (dict_item entry ''available'') (\<lambda>avail.
     and_then (py_sub avail used) (\<lambda>available.
     and_then (dict_item entry ''utilization'') (\<lambda>pct.
     and_then (format_f fmt 1 pct) (\<lambda>pct_text.
     Inr (title @ '' Utilization'' @ [CHR 0x0A] @ ''('' @ pct_text @ ''%)'', used, available)))))))"

definition plot_utilization ::
  "float_format \<Rightarrow> ((pyval dict) dict) dict \<Rightarrow> error + (string \<times> content) list" where
  "plot_utilization fmt util_data =
     (if util_data = [] then Inr []
      else
        let latest_report = fst (last util_data) in
        if latest_report = [] then Inr []
        else
          let util = snd (last util_data) in
          and_then (util_pie fmt util ''lut'' ''LUT'') (\<lambda>p1.
          and_then (util_pie fmt util ''ff'' ''FF'') (\<lambda>p2.
          and_then (util_pie fmt util ''bram'' ''BRAM'') (\<lambda>p3.
          and_then (util_pie fmt util ''dsp'' ''DSP'') (\<lambda>p4.
          Inr [(''utilization.png'', Png (UtilizationChart [p1, p2, p3, p4]))])))))"

definition plot_power_analysis ::
  "float_format \<Rightarrow> (pyval dict) dict \<Rightarrow> error + (string \<times> content) list" where
  "plot_power_analysis fmt power_data =
     (if power_data = [] then Inr []
      else
        let latest_report = fst (last power_data) in
        if latest_report = [] then Inr []
        else
          let latest_power = snd (last power_data) in
          and_then (dict_item latest_power ''dynamic_power'') (\<lambda>dynamic.
          and_then (dict_item latest_power ''static_power'') (\<lambda>static.
          and_then (dict_item latest_power ''total_power'') (\<lambda>total.
          and_then (format_f fmt 2 total) (\<lambda>total_text.
          let reports = map fst power_data in
          and_then (map_result (\<lambda>(r, d). dict_item d ''total_power'') power_data) (\<lambda>total_powers.
          and_then (map_result (\<lambda>(r, d). dict_item d ''dynamic_power'') power_data) (\<lambda>dynamic_powers.
          and_then (map_result (\<lambda>(r, d). dict_item d ''static_power'') power_data) (\<lambda>static_powers.
          Inr [(''power_analysis.png'',
                Png (PowerChart
                  (''Power Breakdown'' @ [CHR 0x0A] @ ''Total: '' @ total_text @ '' W'', dynamic, static)
                  reports total_powers dynamic_powers static_powers))]))))))))"

subsection \<open>The HTML page\<close>

definition html_head :: "string \<Rightarrow> string" where
  \<open>html_head generated_on = unlines ([
      '''',
      ''<!DOCTYPE html>'',
      ''<html>'',
      ''<head>'',
      ''    <title>Xilinx Design Performance Dashboard</title>'',
      ''    <style>'',
      ''        body { font-family: Arial, sans-serif; margin: 20px; }'',
      ''        .header { background-color: #f0f0f0; padding: 20px; border-radius: 5px; }'',
      ''        .section { margin: 20px 0; padding: 15px; border: 1px solid #ddd; border-radius: 5px; }'',
      ''        .metrics { display: flex; justify-content: space-around; flex-wrap: wrap; }'',
      ''        .metric { text-align: center; margin: 10px; padding: 15px; background-color: #f9f9f9; border-radius: 5px; }'',
      ''        .metric-value { font-size: 24px; font-weight: bold; }'',
      ''        .metric-label { font-size: 14px; color: #666; }'',
      ''        .pass { color: green; }'',
      ''        .fail { color: red; }'',
      ''        .warning { color: orange; }'',
      ''        img { max-width: 100%; height: auto; margin: 10px 0; }'',
      ''    </style>'',
      ''</head>'',
      ''<body>'',
      ''    <div class="header">'',
      ''        <h1>Xilinx Design Performance Dashboard</h1>'',
      ''        <p>Generated on: '' @ generated_on @ ''</p>'',
      ''    </div>'',
      ''    '',
      ''    <div class="section">'',
      ''        <h2>Timing Summary</h2>'',
      ''        <div class="metrics">''])\<close>

definition html_utilization_section :: string where
  \<open>html_utilization_section = unlines [
      '''',
      ''        </div>'',
      ''        <img src="timing_analysis.png" alt="Timing Analysis">'',
      ''    </div>'',
      ''    '',
      ''    <div class="section">'',
      ''        <h2>Resource Utilization</h2>'',
      ''        <div class="metrics">'']\<close>

definition html_power_section :: string where
  \<open>html_power_section = unlines [
      '''',
      ''        </div>'',
      ''        <img src="utilization.png" alt="Resource Utilization">'',
      ''    </div>'',
      ''    '',
      ''    <div class="section">'',
      ''        <h2>Power Analysis</h2>'',
      ''        <div class="metrics">'']\<close>

definition html_tail :: string where
  \<open>html_tail = unlines [
      '''',
      ''        </div>'',
      ''        <img src="power_analysis.png" alt="Power Analysis">'',
      ''    </div>'',
      ''    '',
      ''</body>'',
      ''</html>'']\<close>

text \<open>
  One metric tile; \<open>value_class\<close> is what follows \<^verbatim>\<open>metric-value\<close> in the class
  attribute (a blank and the class, or nothing).
\<close>

definition metric_tile :: "string \<Rightarrow> string \<Rightarrow> string \<Rightarrow> string list" where
  \<open>metric_tile value_class text label = [
      ''            <div class="metric">'',
      ''                <div class="metric-value'' @ value_class @ ''">'' @ text @ ''</div>'',
      ''                <div class="metric-label">'' @ label @ ''</div>'',
      ''            </div>'']\<close>

definition html_timing :: "float_format \<Rightarrow> (pyval dict) dict \<Rightarrow> error + string" where
  "html_timing fmt timing =
     (if timing = [] then Inr []
      else
        let latest_timing = snd (last timing);
            wns = dict_get latest_timing ''wns'' (PInt 0);
            tns = dict_get latest_timing ''tns'' (PInt 0);
            failing_eps = dict_get latest_timing ''failing_endpoints'' (PInt 0)
        in
        and_then (py_ge wns 0) (\<lambda>wns_ok.
        and_then (py_ge tns 0) (\<lambda>tns_ok.
        let wns_class = (if wns_ok then ''pass'' else ''fail'');
            tns_class = (if tns_ok then ''pass'' else ''fail'');
            eps_class = (if py_eq failing_eps 0 then ''pass'' else ''fail'')
        in
        and_then (format_f fmt 3 wns) (\<lambda>wns_text.
        and_then (format_f fmt 3 tns) (\<lambda>tns_text.
        Inr (unlines ([''''] @
               metric_tile ('' '' @ wns_class) (wns_text @ '' ns'') ''Worst Negative Slack'' @
               metric_tile ('' '' @ tns_class) (tns_text @ '' ns'') ''Total Negative Slack'' @
               metric_tile ('' '' @ eps_class) (py_str fmt failing_eps) ''Failing Endpoints'')))))))"

definition util_class :: "pyval \<Rightarrow> error + string" where
  \<comment> \<open>\<^verbatim>\<open>'pass' if util_pct < 80 else 'warning' if util_pct < 95 else 'fail'\<close>\<close>
  "util_class util_pct =
     and_then (py_lt util_pct 80) (\<lambda>below_80.
     if below_80 then Inr ''pass''
     else and_then (py_lt util_pct 95) (\<lambda>below_95.
          Inr (if below_95 then ''warning'' else ''fail'')))"

definition util_tile :: "float_format \<Rightarrow> (pyval dict) dict \<Rightarrow> string \<Rightarrow> error + string" where
  "util_tile fmt latest_util resource =
     (if resource \<in> set (map fst latest_util) then
        and_then (dict_item latest_util resource) (\<lambda>entry.
        and_then (dict_item entry ''utilization'') (\<lambda>util_pct.
        and_then (util_class util_pct) (\<lambda>cls.
        and_then (format_f fmt 1 util_pct) (\<lambda>pct_text.
        Inr (unlines ([''''] @
               metric_tile ('' '' @ cls) (pct_text @ ''%'') (upper resource @ '' Utilization'')))))))
      else Inr [])"

definition html_utilization :: "float_format \<Rightarrow> ((pyval dict) dict) dict \<Rightarrow> error + string" where
  "html_utilization fmt utilization =
     (if utilization = [] then Inr []
      else
        let latest_util = snd (last utilization) in
        and_then (map_result (util_tile fmt latest_util) [''lut'', ''ff'', ''bram'', ''dsp''])
          (\<lambda>tiles. Inr (concat tiles)))"

definition html_power :: "float_format \<Rightarrow> (pyval dict) dict \<Rightarrow> error + string" where
  "html_power fmt power_data =
     (if power_data = [] then Inr []
      else
        let latest_power = snd (last power_data);
            total_power = dict_get latest_power ''total_power'' (PInt 0);
            dynamic_power = dict_get latest_power ''dynamic_power'' (PInt 0);
            static_power = dict_get latest_power ''static_power'' (PInt 0)
        in
        and_then (format_f fmt 2 total_power) (\<lambda>total_text.
        and_then (format_f fmt 2 dynamic_power) (\<lambda>dynamic_text.
        and_then (format_f fmt 2 static_power) (\<lambda>static_text.
        Inr (unlines ([''''] @
               metric_tile [] (total_text @ '' W'') ''Total Power'' @
               metric_tile [] (dynamic_text @ '' W'') ''Dynamic Power'' @
               metric_tile [] (static_text @ '' W'') ''Static Power''))))))"

definition generate_html_dashboard :: "float_format \<Rightarrow> results \<Rightarrow> error + (string \<times> content) list" where
  "generate_html_dashboard fmt results =
     and_then (html_timing fmt (res_timing results)) (\<lambda>timing_tiles.
     and_then (html_utilization fmt (res_utilization results)) (\<lambda>utilization_tiles.
     and_then (html_power fmt (res_power results)) (\<lambda>power_tiles.
     Inr [(''dashboard.html'',
           Html (html_head (res_timestamp results) @ timing_tiles @
                 html_utilization_section @ utilization_tiles @
                 html_power_section @ power_tiles @ html_tail))])))"

text \<open>
  The dashboard: the three charts, then the page. The result is the exception that
  stopped it, if any, and the files written until then, named inside the output
  directory (creating that directory is taken to succeed).
\<close>

definition generate_performance_dashboard ::
  "float_format \<Rightarrow> results \<Rightarrow> error option \<times> (string \<times> content) list" where
  "generate_performance_dashboard fmt results =
     (case plot_timing_analysis (res_timing results) of
        Inl e \<Rightarrow> (Some e, [])
      | Inr f1 \<Rightarrow>
     (case plot_utilization fmt (res_utilization results) of
        Inl e \<Rightarrow> (Some e, f1)
      | Inr f2 \<Rightarrow>
     (case plot_power_analysis fmt (res_power results) of
        Inl e \<Rightarrow> (Some e, f1 @ f2)
      | Inr f3 \<Rightarrow>
     (case generate_html_dashboard fmt results of
        Inl e \<Rightarrow> (Some e, f1 @ f2 @ f3)
      | Inr f4 \<Rightarrow> (None, f1 @ f2 @ f3 @ f4)))))"

section \<open>The result exporter\<close>

text \<open>
  \<^verbatim>\<open>json.dump\<close> writes a dictionary as an object with the members in the dictionary's
  order, \<^verbatim>\<open>None\<close> as \<^verbatim>\<open>null\<close>, numbers as numbers and strings as strings. The document
  is modelled as the JSON value; its text is the work of the library.
\<close>

definition json_of_pyval :: "pyval \<Rightarrow> json" where
  "json_of_pyval v =
     (case v of PNone \<Rightarrow> JNull | PInt i \<Rightarrow> JInt i | PFloat x \<Rightarrow> JFloat x | PStr s \<Rightarrow> JString s)"

definition json_of_dict :: "('v \<Rightarrow> json) \<Rightarrow> 'v dict \<Rightarrow> json" where
  "json_of_dict f d = JObject (map (\<lambda>(k, v). (k, f v)) d)"

definition json_of_results :: "results \<Rightarrow> json" where
  "json_of_results results = JObject
     [(''timestamp'', JString (res_timestamp results)),
      (''timing'', json_of_dict (json_of_dict json_of_pyval) (res_timing results)),
      (''utilization'',
         json_of_dict (json_of_dict (json_of_dict json_of_pyval)) (res_utilization results)),
      (''power'', json_of_dict (json_of_dict json_of_pyval) (res_power results))]"

definition save_results_json :: "results \<Rightarrow> string \<Rightarrow> (string \<times> content) list" where
  "save_results_json results output_file = [(output_file, Json (json_of_results results))]"

definition json_member :: "json \<Rightarrow> string \<Rightarrow> json option" where
  "json_member j k = (case j of JObject ms \<Rightarrow> map_of ms k | _ \<Rightarrow> None)"

section \<open>What a pattern means\<close>

text \<open>
  The meaning of a pattern, stated without the matcher: \<open>denotes re s caps rest\<close> holds
  when \<open>s\<close> is a text matched by \<open>re\<close>, with the groups \<open>caps\<close>, followed by \<open>rest\<close>.
  \<open>run_ends re rest\<close> says that the last repetition of \<open>re\<close> took all it could: \<open>rest\<close>
  does not go on with a character of its class.
\<close>


fun denotes :: "regex \<Rightarrow> string \<Rightarrow> string list \<Rightarrow> string \<Rightarrow> bool" where
  "denotes [] s caps rest = (caps = [] \<and> rest = s)"
| "denotes (Chr c # re) s caps rest = (\<exists>t. s = c # t \<and> denotes re t caps rest)"
| "denotes (Star p # re) s caps rest =
     (\<exists>a t. s = a @ t \<and> (\<forall>c\<in>set a. p c) \<and> denotes re t caps rest)"
| "denotes (Plus p # re) s caps rest =
     (\<exists>a t. s = a @ t \<and> a \<noteq> [] \<and> (\<forall>c\<in>set a. p c) \<and> denotes re t caps rest)"
| "denotes (Group p # re) s caps rest =
     (\<exists>a t caps'. s = a @ t \<and> a \<noteq> [] \<and> (\<forall>c\<in>set a. p c) \<and> caps = a # caps' \<and>
        denotes re t caps' rest)"

fun run_ends :: "regex \<Rightarrow> string \<Rightarrow> bool" where
  "run_ends [] rest = True"
| "run_ends [Chr c] rest = True"
| "run_ends [Star p] rest = (rest = [] \<or> \<not> p (hd rest))"
| "run_ends [Plus p] rest = (rest = [] \<or> \<not> p (hd rest))"
| "run_ends [Group p] rest = (rest = [] \<or> \<not> p (hd rest))"
| "run_ends (x # y # re) rest = run_ends (y # re) rest"

text \<open>
  \<open>first_match re content caps\<close>: the leftmost place of \<open>content\<close> where \<open>re\<close> matches,
  and the groups of the longest match there. \<open>no_match re content\<close>: \<open>re\<close> matches
  nowhere in \<open>content\<close>.
\<close>

definition first_match :: "regex \<Rightarrow> string \<Rightarrow> string list \<Rightarrow> bool" where
  "first_match re content caps \<longleftrightarrow>
     (\<exists>pre s rest. content = pre @ s \<and> denotes re s caps rest \<and> run_ends re rest \<and>
        (\<forall>pre' s'. content = pre' @ s' \<and> length pre' < length pre \<longrightarrow>
           (\<forall>c r. \<not> denotes re s' c r)))"

definition no_match :: "regex \<Rightarrow> string \<Rightarrow> bool" where
  "no_match re content \<longleftrightarrow> (\<forall>pre s c r. content = pre @ s \<longrightarrow> \<not> denotes re s c r)"

text \<open>
  A pattern is unambiguous when what follows a repetition cannot begin with a character
  of the repeated class: then backtracking never finds a match that the greedy scan
  misses, and the groups are those of the scan.
\<close>

fun follows_ok :: "(char \<Rightarrow> bool) \<Rightarrow> regex \<Rightarrow> bool" where
  "follows_ok p [] = False"
| "follows_ok p (Chr c # re) = (\<not> p c)"
| "follows_ok p (Star q # re) = ((\<forall>c. p c \<longrightarrow> \<not> q c) \<and> follows_ok p re)"
| "follows_ok p (Plus q # re) = (\<forall>c. p c \<longrightarrow> \<not> q c)"
| "follows_ok p (Group q # re) = (\<forall>c. p c \<longrightarrow> \<not> q c)"

fun unambiguous :: "regex \<Rightarrow> bool" where
  "unambiguous [] = True"
| "unambiguous (Chr c # re) = unambiguous re"
| "unambiguous (Star p # re) = ((re = [] \<or> follows_ok p re) \<and> unambiguous re)"
| "unambiguous (Plus p # re) = ((re = [] \<or> follows_ok p re) \<and> unambiguous re)"
| "unambiguous (Group p # re) = ((re = [] \<or> follows_ok p re) \<and> unambiguous re)"

fun greedy :: "regex \<Rightarrow> string \<Rightarrow> (string list \<times> string) option" where
  "greedy [] s = Some ([], s)"
| "greedy (Chr c # re) s = (case s of [] \<Rightarrow> None | x # xs \<Rightarrow> if x = c then greedy re xs else None)"
| "greedy (Star p # re) s = greedy re (dropWhile p s)"
| "greedy (Plus p # re) s = (if takeWhile p s = [] then None else greedy re (dropWhile p s))"
| "greedy (Group p # re) s =
     (if takeWhile p s = [] then None
      else map_option (\<lambda>(caps, rest). (takeWhile p s # caps, rest)) (greedy re (dropWhile p s)))"

definition first :: "'a list \<Rightarrow> 'a option" where
  "first xs = (case xs of [] \<Rightarrow> None | x # _ \<Rightarrow> Some x)"

section \<open>The fields of a report\<close>

text \<open>
  The labelled fields of each parser, with the key they are stored under.
\<close>

definition timing_fields :: "(string \<times> regex) list" where
  "timing_fields = [(''wns'', wns_pattern), (''tns'', tns_pattern), (''whs'', whs_pattern)]"

definition utilization_rows :: "(string \<times> regex) list" where
  "utilization_rows =
     [(''lut'', lut_pattern), (''ff'', ff_pattern), (''bram'', bram_pattern), (''dsp'', dsp_pattern)]"

definition power_fields :: "(string \<times> regex) list" where
  "power_fields =
     [(''total_power'', total_pattern), (''dynamic_power'', dynamic_pattern),
      (''static_power'', static_pattern)]"

text \<open>
  \<open>group_classes re\<close> lists the character classes of the groups of \<open>re\<close>.
  \<open>unconvertible re content\<close>: the pattern matches, and the text of its last group, the
  one read by \<^verbatim>\<open>float\<close>, is not a number.
\<close>

fun group_classes :: "regex \<Rightarrow> (char \<Rightarrow> bool) list" where
  "group_classes [] = []"
| "group_classes (Group p # re) = p # group_classes re"
| "group_classes (x # re) = group_classes re"

definition unconvertible :: "regex \<Rightarrow> string \<Rightarrow> bool" where
  "unconvertible re content \<longleftrightarrow>
     (\<exists>caps. first_match re content caps \<and> caps \<noteq> [] \<and> py_float (last caps) = Inl ValueError)"

text \<open>
  The value a field ends up with, as a function of the text alone: the default when
  the pattern is absent, the converted group otherwise. The parsers are compositions of
  these (lemmas \<open>parse_timing_report_fields\<close>, \<open>parse_utilization_report_fields\<close> and
  \<open>parse_power_report_fields\<close>).
\<close>

definition float_field :: "regex \<Rightarrow> string \<Rightarrow> pyval \<Rightarrow> error + pyval" where
  "float_field re content dflt =
     (case re_search re content of
        None \<Rightarrow> Inr dflt
      | Some gs \<Rightarrow> and_then (m_group gs 1) (\<lambda>g. and_then (py_float g) (\<lambda>v. Inr (PFloat v))))"

definition int_field :: "regex \<Rightarrow> string \<Rightarrow> pyval \<Rightarrow> error + pyval" where
  "int_field re content dflt =
     (case re_search re content of
        None \<Rightarrow> Inr dflt
      | Some gs \<Rightarrow> and_then (m_group gs 1) (\<lambda>g. and_then (py_int g) (\<lambda>v. Inr (PInt v))))"

definition row_field :: "regex \<Rightarrow> string \<Rightarrow> error + pyval dict" where
  "row_field re content =
     (case re_search re content of
        None \<Rightarrow> Inr util_entry_default
      | Some gs \<Rightarrow>
          and_then (m_group gs 1) (\<lambda>g1. and_then (py_int g1) (\<lambda>used.
          and_then (m_group gs 2) (\<lambda>g2. and_then (py_int g2) (\<lambda>avail.
          and_then (m_group gs 3) (\<lambda>g3. and_then (py_float g3) (\<lambda>pct.
          Inr [(''used'', PInt used), (''available'', PInt avail), (''utilization'', PFloat pct)])))))))"

section \<open>The matcher and the meaning of a pattern\<close>

lemma splits_set: "set (splits p s) = {(a, r). s = a @ r \<and> (\<forall>c\<in>set a. p c)}"
proof (induction s)
  case Nil
  then show ?case by auto
next
  case (Cons c s)
  show ?case
  proof (cases "p c")
    case True
    have "set (splits p (c # s)) = (\<lambda>(a, r). (c # a, r)) ` set (splits p s) \<union> {([], c # s)}"
      using True by simp
    also have "\<dots> = {(a, r). c # s = a @ r \<and> (\<forall>x\<in>set a. p x)}"
      unfolding Cons.IH using True by (auto simp: Cons_eq_append_conv)
    finally show ?thesis .
  next
    case False
    then show ?thesis by (auto simp: Cons_eq_append_conv)
  qed
qed

lemma splits_head:
  "\<exists>xs. splits p s = (takeWhile p s, dropWhile p s) # xs \<and> (\<forall>(a, r)\<in>set xs. r \<noteq> [] \<and> p (hd r))"
proof (induction s)
  case Nil
  then show ?case by simp
next
  case (Cons c s)
  then obtain xs where xs: "splits p s = (takeWhile p s, dropWhile p s) # xs"
    "\<forall>(a, r)\<in>set xs. r \<noteq> [] \<and> p (hd r)" by blast
  show ?case
  proof (cases "p c")
    case True
    then have "splits p (c # s) = (takeWhile p (c # s), dropWhile p (c # s)) #
        (map (\<lambda>(a, r). (c # a, r)) xs @ [([], c # s)])"
      using xs(1) by simp
    moreover have "\<forall>(a, r)\<in>set (map (\<lambda>(a, r). (c # a, r)) xs @ [([], c # s)]). r \<noteq> [] \<and> p (hd r)"
      using xs(2) True by auto
    ultimately show ?thesis by blast
  next
    case False
    then show ?thesis by simp
  qed
qed

lemma splits_no_run: "takeWhile p s = [] \<Longrightarrow> splits p s = [([], s)]"
  by (cases s) (auto split: if_splits)

lemma match_items_iff: "(caps, rest) \<in> set (match_items re s) \<longleftrightarrow> denotes re s caps rest"
proof (induction re arbitrary: s caps)
  case Nil
  then show ?case by auto
next
  case (Cons x re)
  show ?case
  proof (cases x)
    case (Chr c)
    then show ?thesis using Cons.IH by (cases s) auto
  next
    case (Star p)
    then show ?thesis using Cons.IH by (auto simp: splits_set)
  next
    case (Plus p)
    then show ?thesis using Cons.IH by (fastforce simp: splits_set split: if_splits)
  next
    case (Group p)
    then show ?thesis using Cons.IH by (fastforce simp: splits_set split: if_splits)
  qed
qed

lemma follows_ok_rejects: "follows_ok p re \<Longrightarrow> p c \<Longrightarrow> match_items re (c # t) = []"
  by (induction p re rule: follows_ok.induct) auto


lemma first_append: "first (xs @ ys) = (case first xs of None \<Rightarrow> first ys | Some x \<Rightarrow> Some x)"
  by (cases xs) (auto simp: first_def)

lemma rejected_tail:
  assumes "\<forall>(a, r)\<in>set xs. r \<noteq> [] \<and> p (hd r)" and "follows_ok p re"
  shows "\<forall>(a, r)\<in>set xs. match_items re r = []"
proof (clarify)
  fix a r assume "(a, r) \<in> set xs"
  with assms(1) have "r \<noteq> []" "p (hd r)" by auto
  then obtain c t where "r = c # t" "p c" by (cases r) auto
  with assms(2) show "match_items re r = []" by (simp add: follows_ok_rejects)
qed

lemma first_map: "first (map f ys) = map_option f (first ys)"
  by (cases ys) (auto simp: first_def)

lemma first_greedy: "unambiguous re \<Longrightarrow> first (match_items re s) = greedy re s"
proof (induction re arbitrary: s)
  case Nil
  then show ?case by (simp add: first_def)
next
  case (Cons x re)
  have un: "unambiguous re" using Cons.prems by (cases x) auto
  note IH = Cons.IH[OF un]
  show ?case
  proof (cases x)
    case (Chr c)
    then show ?thesis using IH by (cases s) (auto simp: first_def)
  next
    case (Star p)
    obtain xs where xs: "splits p s = (takeWhile p s, dropWhile p s) # xs"
      "\<forall>(a, r)\<in>set xs. r \<noteq> [] \<and> p (hd r)" using splits_head by blast
    show ?thesis
    proof (cases "re = []")
      case True
      then show ?thesis using Star xs(1) by (simp add: first_def)
    next
      case False
      then have fo: "follows_ok p re" using Cons.prems Star by simp
      have "\<forall>(a, r)\<in>set xs. match_items re r = []" by (rule rejected_tail[OF xs(2) fo])
      then have "concat (map (\<lambda>(a, r). match_items re r) xs) = []" by auto
      then have "match_items (Star p # re) s = match_items re (dropWhile p s)"
        using xs(1) by simp
      then show ?thesis using Star IH by simp
    qed
  next
    case (Plus p)
    obtain xs where xs: "splits p s = (takeWhile p s, dropWhile p s) # xs"
      "\<forall>(a, r)\<in>set xs. r \<noteq> [] \<and> p (hd r)" using splits_head by blast
    show ?thesis
    proof (cases "takeWhile p s = []")
      case True
      then show ?thesis using Plus by (simp add: splits_no_run first_def)
    next
      case tw: False
      show ?thesis
      proof (cases "re = []")
        case True
        then show ?thesis using Plus xs(1) tw by (simp add: first_def)
      next
        case False
        then have fo: "follows_ok p re" using Cons.prems Plus by simp
        have "\<forall>(a, r)\<in>set xs. match_items re r = []" by (rule rejected_tail[OF xs(2) fo])
        then have "concat (map (\<lambda>(a, r). if a = [] then [] else match_items re r) xs) = []"
          by auto
        then have "match_items (Plus p # re) s = match_items re (dropWhile p s)"
          using xs(1) tw by simp
        then show ?thesis using Plus IH tw by simp
      qed
    qed
  next
    case (Group p)
    obtain xs where xs: "splits p s = (takeWhile p s, dropWhile p s) # xs"
      "\<forall>(a, r)\<in>set xs. r \<noteq> [] \<and> p (hd r)" using splits_head by blast
    show ?thesis
    proof (cases "takeWhile p s = []")
      case True
      then show ?thesis using Group by (simp add: splits_no_run first_def)
    next
      case tw: False
      show ?thesis
      proof (cases "re = []")
        case True
        then show ?thesis using Group xs(1) tw by (simp add: first_def)
      next
        case False
        then have fo: "follows_ok p re" using Cons.prems Group by simp
        have "\<forall>(a, r)\<in>set xs. match_items re r = []" by (rule rejected_tail[OF xs(2) fo])
        then have "concat (map (\<lambda>(a, r). if a = [] then []
            else map (\<lambda>(caps, rest). (a # caps, rest)) (match_items re r)) xs) = []"
          by auto
        then have "match_items (Group p # re) s =
            map (\<lambda>(caps, rest). (takeWhile p s # caps, rest)) (match_items re (dropWhile p s))"
          using xs(1) tw by simp
        then show ?thesis using Group IH tw by (simp add: first_map)
      qed
    qed
  qed
qed


lemma run_ends_Cons: "re \<noteq> [] \<Longrightarrow> run_ends (x # re) rest = run_ends re rest"
  by (cases re) auto

lemma run_split:
  "(\<forall>c\<in>set a. p c) \<Longrightarrow> t = [] \<or> \<not> p (hd t) \<Longrightarrow> takeWhile p (a @ t) = a \<and> dropWhile p (a @ t) = t"
  by (cases t) (auto simp: takeWhile_append2 dropWhile_append2)

lemma follows_ok_denotes: "follows_ok p re \<Longrightarrow> denotes re t caps rest \<Longrightarrow> t = [] \<or> \<not> p (hd t)"
proof (cases t)
  case Nil
  then show ?thesis by simp
next
  case (Cons c t')
  assume fo: "follows_ok p re" and d: "denotes re t caps rest"
  have "p c \<Longrightarrow> False"
  proof -
    assume "p c"
    then have "match_items re (c # t') = []" using fo by (rule follows_ok_rejects[rotated])
    moreover have "(caps, rest) \<in> set (match_items re (c # t'))"
      using d Cons by (simp add: match_items_iff)
    ultimately show False by simp
  qed
  then show ?thesis using Cons by auto
qed

lemma denotes_run:
  assumes "denotes re (dropWhile p s) caps rest"
  shows "denotes (Star p # re) s caps rest"
    and "takeWhile p s \<noteq> [] \<Longrightarrow> denotes (Plus p # re) s caps rest"
    and "takeWhile p s \<noteq> [] \<Longrightarrow> denotes (Group p # re) s (takeWhile p s # caps) rest"
proof -
  have s: "s = takeWhile p s @ dropWhile p s" by simp
  have a: "\<forall>c\<in>set (takeWhile p s). p c" by (auto dest: set_takeWhileD)
  show "denotes (Star p # re) s caps rest"
    unfolding denotes.simps using s a assms by blast
  show "takeWhile p s \<noteq> [] \<Longrightarrow> denotes (Plus p # re) s caps rest"
    unfolding denotes.simps using s a assms by blast
  show "takeWhile p s \<noteq> [] \<Longrightarrow> denotes (Group p # re) s (takeWhile p s # caps) rest"
    unfolding denotes.simps using s a assms by blast
qed

lemma greedy_sound: "greedy re s = Some (caps, rest) \<Longrightarrow> denotes re s caps rest \<and> run_ends re rest"
proof (induction re arbitrary: s caps)
  case Nil
  then show ?case by auto
next
  case (Cons x re)
  have tail: "run_ends re rest \<Longrightarrow> (re = [] \<Longrightarrow> run_ends [x] rest) \<Longrightarrow> run_ends (x # re) rest"
    by (cases "re = []") (auto simp: run_ends_Cons)
  have last_run: "run_ends [x] (dropWhile p s)" if "x = Star p \<or> x = Plus p \<or> x = Group p" for p
  proof -
    have "dropWhile p s = [] \<or> \<not> p (hd (dropWhile p s))" using hd_dropWhile[of p s] by blast
    then show ?thesis using that by auto
  qed
  show ?case
  proof (cases x)
    case (Chr c)
    with Cons.prems obtain t where t: "s = c # t" "greedy re t = Some (caps, rest)"
      by (cases s) (auto split: if_splits)
    from Cons.IH[OF t(2)] have "denotes re t caps rest" "run_ends re rest" by auto
    moreover from this(2) have "run_ends (Chr c # re) rest" by (cases "re = []") (auto simp: run_ends_Cons)
    ultimately show ?thesis using Chr t(1) by simp
  next
    case (Star p)
    with Cons.prems have g: "greedy re (dropWhile p s) = Some (caps, rest)" by simp
    from Cons.IH[OF g] have d: "denotes re (dropWhile p s) caps rest" and r: "run_ends re rest" by auto
    have "denotes (Star p # re) s caps rest" using denotes_run(1)[OF d] .
    moreover have "run_ends (Star p # re) rest"
    proof (rule tail[OF r, unfolded Star])
      assume "re = []"
      with d have "rest = dropWhile p s" by simp
      then show "run_ends [Star p] rest" using last_run[of p] Star by simp
    qed
    ultimately show ?thesis using Star by simp
  next
    case (Plus p)
    with Cons.prems have tw: "takeWhile p s \<noteq> []" and g: "greedy re (dropWhile p s) = Some (caps, rest)"
      by (auto split: if_splits)
    from Cons.IH[OF g] have d: "denotes re (dropWhile p s) caps rest" and r: "run_ends re rest" by auto
    have "denotes (Plus p # re) s caps rest" using denotes_run(2)[OF d tw] .
    moreover have "run_ends (Plus p # re) rest"
    proof (rule tail[OF r, unfolded Plus])
      assume "re = []"
      with d have "rest = dropWhile p s" by simp
      then show "run_ends [Plus p] rest" using last_run[of p] Plus by simp
    qed
    ultimately show ?thesis using Plus by simp
  next
    case (Group p)
    with Cons.prems obtain caps' where tw: "takeWhile p s \<noteq> []"
      and g: "greedy re (dropWhile p s) = Some (caps', rest)" and c: "caps = takeWhile p s # caps'"
      by (auto split: if_splits)
    from Cons.IH[OF g] have d: "denotes re (dropWhile p s) caps' rest" and r: "run_ends re rest" by auto
    have "denotes (Group p # re) s caps rest" using denotes_run(3)[OF d tw] c by simp
    moreover have "run_ends (Group p # re) rest"
    proof (rule tail[OF r, unfolded Group])
      assume "re = []"
      with d have "rest = dropWhile p s" by simp
      then show "run_ends [Group p] rest" using last_run[of p] Group by simp
    qed
    ultimately show ?thesis using Group by simp
  qed
qed

lemma greedy_complete:
  "unambiguous re \<Longrightarrow> denotes re s caps rest \<Longrightarrow> run_ends re rest \<Longrightarrow> greedy re s = Some (caps, rest)"
proof (induction re arbitrary: s caps)
  case Nil
  then show ?case by auto
next
  case (Cons x re)
  have un: "unambiguous re" using Cons.prems(1) by (cases x) auto
  have re: "run_ends re rest" using Cons.prems(3) by (cases "re = []") (auto simp: run_ends_Cons)
  have stop: "t = [] \<or> \<not> p (hd t)"
    if "x = Star p \<or> x = Plus p \<or> x = Group p" and "denotes re t caps' rest" for p t caps'
  proof (cases "re = []")
    case True
    with that(2) have "rest = t" by simp
    then show ?thesis using Cons.prems(3) True that(1) by auto
  next
    case False
    then have "follows_ok p re" using Cons.prems(1) that(1) by auto
    then show ?thesis using that(2) by (rule follows_ok_denotes)
  qed
  show ?case
  proof (cases x)
    case (Chr c)
    with Cons.prems(2) obtain t where t: "s = c # t" "denotes re t caps rest" by auto
    then show ?thesis using Chr Cons.IH[OF un t(2) re] by simp
  next
    case (Star p)
    with Cons.prems(2) obtain a t where t: "s = a @ t" "\<forall>c\<in>set a. p c" "denotes re t caps rest"
      by auto
    have "t = [] \<or> \<not> p (hd t)" using stop[of p t caps] Star t(3) by simp
    then have "takeWhile p s = a \<and> dropWhile p s = t" using t(1,2) run_split by blast
    then show ?thesis using Star Cons.IH[OF un t(3) re] by simp
  next
    case (Plus p)
    with Cons.prems(2) obtain a t where t: "s = a @ t" "\<forall>c\<in>set a. p c" "denotes re t caps rest" "a \<noteq> []"
      by auto
    have "t = [] \<or> \<not> p (hd t)" using stop[of p t caps] Plus t(3) by simp
    then have "takeWhile p s = a \<and> dropWhile p s = t" using t(1,2) run_split by blast
    then show ?thesis using Plus Cons.IH[OF un t(3) re] t(4) by simp
  next
    case (Group p)
    with Cons.prems(2) obtain a t caps' where t: "s = a @ t" "\<forall>c\<in>set a. p c"
      "denotes re t caps' rest" "a \<noteq> []" "caps = a # caps'"
      by auto
    have "t = [] \<or> \<not> p (hd t)" using stop[of p t caps'] Group t(3) by simp
    then have "takeWhile p s = a \<and> dropWhile p s = t" using t(1,2) run_split by blast
    then show ?thesis using Group Cons.IH[OF un t(3) re] t(4,5) by simp
  qed
qed

lemma re_match_first: "re_match re s = map_option fst (first (match_items re s))"
  by (auto simp: re_match_def first_def split: list.splits)

lemma re_match_None_iff: "re_match re s = None \<longleftrightarrow> (\<forall>caps rest. \<not> denotes re s caps rest)"
proof (cases "match_items re s")
  case Nil
  then have "\<forall>caps rest. \<not> denotes re s caps rest"
    using match_items_iff[of _ _ re s] by simp
  then show ?thesis using Nil by (simp add: re_match_def)
next
  case (Cons m ms)
  obtain caps rest where m: "m = (caps, rest)" by (cases m)
  then have "denotes re s caps rest" using Cons match_items_iff[of caps rest re s] by simp
  then show ?thesis using Cons m by (auto simp: re_match_def)
qed

lemma re_match_Some_iff:
  assumes "unambiguous re"
  shows "re_match re s = Some caps \<longleftrightarrow> (\<exists>rest. denotes re s caps rest \<and> run_ends re rest)"
proof
  assume "re_match re s = Some caps"
  then obtain rest where "greedy re s = Some (caps, rest)"
    using first_greedy[OF assms, of s] by (auto simp: re_match_first)
  then show "\<exists>rest. denotes re s caps rest \<and> run_ends re rest" using greedy_sound by blast
next
  assume "\<exists>rest. denotes re s caps rest \<and> run_ends re rest"
  then obtain rest where "denotes re s caps rest" "run_ends re rest" by blast
  then have "greedy re s = Some (caps, rest)" using greedy_complete[OF assms] by blast
  then show "re_match re s = Some caps" using first_greedy[OF assms, of s] by (simp add: re_match_first)
qed

lemma re_search_None_iff: "re_search re content = None \<longleftrightarrow> no_match re content"
proof (induction content)
  case Nil
  then show ?case by (simp add: no_match_def re_match_None_iff)
next
  case (Cons c s)
  have nm: "no_match re (c # s) \<longleftrightarrow> (\<forall>caps rest. \<not> denotes re (c # s) caps rest) \<and> no_match re s"
    unfolding no_match_def by (auto simp: Cons_eq_append_conv)
  show ?case
  proof (cases "re_match re (c # s)")
    case None
    then have "\<forall>caps rest. \<not> denotes re (c # s) caps rest" by (simp add: re_match_None_iff)
    then show ?thesis using None Cons.IH nm by simp
  next
    case (Some m)
    then have "\<not> (\<forall>caps rest. \<not> denotes re (c # s) caps rest)"
      using re_match_None_iff[of re "c # s"] by simp
    then show ?thesis using Some nm by simp
  qed
qed

lemma first_match_Nil:
  "first_match re [] caps \<longleftrightarrow> (\<exists>rest. denotes re [] caps rest \<and> run_ends re rest)"
  by (auto simp: first_match_def)

lemma first_match_Cons:
  "first_match re (c # s) caps \<longleftrightarrow>
     (\<exists>rest. denotes re (c # s) caps rest \<and> run_ends re rest) \<or>
     ((\<forall>caps rest. \<not> denotes re (c # s) caps rest) \<and> first_match re s caps)"
  (is "?L \<longleftrightarrow> ?A \<or> (?N \<and> ?B)")
proof
  assume ?L
  then obtain pre t rest where h: "c # s = pre @ t" "denotes re t caps rest" "run_ends re rest"
    "\<forall>pre' s'. c # s = pre' @ s' \<and> length pre' < length pre \<longrightarrow> (\<forall>c r. \<not> denotes re s' c r)"
    unfolding first_match_def by blast
  show "?A \<or> (?N \<and> ?B)"
  proof (cases pre)
    case Nil
    then show ?thesis using h by auto
  next
    case (Cons d pre1)
    then have s: "s = pre1 @ t" and d: "d = c" using h(1) by auto
    have "?N" using h(4)[rule_format, of "[]" "c # s"] Cons by auto
    moreover have "?B" unfolding first_match_def
    proof (intro exI conjI allI impI)
      show "s = pre1 @ t" by (rule s)
      show "denotes re t caps rest" by (rule h(2))
      show "run_ends re rest" by (rule h(3))
      fix pre' s' c' r assume a: "s = pre' @ s' \<and> length pre' < length pre1"
      then have "c # s = (c # pre') @ s' \<and> length (c # pre') < length pre" using Cons by simp
      then show "\<not> denotes re s' c' r" using h(4) by blast
    qed
    ultimately show ?thesis by blast
  qed
next
  assume "?A \<or> (?N \<and> ?B)"
  then show ?L
  proof
    assume ?A
    then obtain rest where "denotes re (c # s) caps rest" "run_ends re rest" by blast
    then show ?L unfolding first_match_def
      by (intro exI[of _ "[]"] exI[of _ "c # s"] exI[of _ rest]) simp
  next
    assume nb: "?N \<and> ?B"
    then obtain pre t rest where h: "s = pre @ t" "denotes re t caps rest" "run_ends re rest"
      "\<forall>pre' s'. s = pre' @ s' \<and> length pre' < length pre \<longrightarrow> (\<forall>c r. \<not> denotes re s' c r)"
      unfolding first_match_def by blast
    show ?L unfolding first_match_def
    proof (intro exI conjI allI impI)
      show "c # s = (c # pre) @ t" using h(1) by simp
      show "denotes re t caps rest" by (rule h(2))
      show "run_ends re rest" by (rule h(3))
      fix pre' s' c' r assume a: "c # s = pre' @ s' \<and> length pre' < length (c # pre)"
      show "\<not> denotes re s' c' r"
      proof (cases pre')
        case Nil
        then show ?thesis using a nb by auto
      next
        case (Cons d p1)
        then have "s = p1 @ s' \<and> length p1 < length pre" using a by auto
        then show ?thesis using h(4) by blast
      qed
    qed
  qed
qed

lemma re_search_Some_iff:
  assumes "unambiguous re"
  shows "re_search re content = Some caps \<longleftrightarrow> first_match re content caps"
proof (induction content)
  case Nil
  then show ?case by (simp add: first_match_Nil re_match_Some_iff[OF assms])
next
  case (Cons c s)
  show ?case
  proof (cases "re_match re (c # s)")
    case None
    then have "\<forall>caps rest. \<not> denotes re (c # s) caps rest" by (simp add: re_match_None_iff)
    then show ?thesis using None Cons.IH by (simp add: first_match_Cons)
  next
    case (Some m)
    then have ex: "\<exists>rest. denotes re (c # s) m rest \<and> run_ends re rest"
      using re_match_Some_iff[OF assms] by simp
    have "first_match re (c # s) caps \<longleftrightarrow> (\<exists>rest. denotes re (c # s) caps rest \<and> run_ends re rest)"
      using ex by (auto simp: first_match_Cons)
    also have "\<dots> \<longleftrightarrow> re_match re (c # s) = Some caps" using re_match_Some_iff[OF assms] by simp
    finally show ?thesis using Some by auto
  qed
qed

section \<open>The parsers, field by field\<close>

lemma and_then_simps [simp]:
  "and_then (Inl e) f = Inl e"
  "and_then (Inr x) f = f x"
  by (simp_all add: and_then_def)

lemma space_not_value:
  "is_space c \<Longrightarrow> \<not> is_digit c"
  "is_space c \<Longrightarrow> \<not> is_digit_dot c"
  "is_space c \<Longrightarrow> \<not> is_sign_digit_dot c"
  "\<not> is_space (CHR ''|'')"
  "\<not> is_digit (CHR ''|'')"
  by (auto simp: is_space_def is_digit_def is_digit_dot_def is_sign_digit_dot_def)

lemma unambiguous_lit: "unambiguous (lit l @ re) = unambiguous re"
  by (induction l) (auto simp: lit_def)

lemma unambiguous_patterns:
  "unambiguous wns_pattern" "unambiguous tns_pattern" "unambiguous whs_pattern"
  "unambiguous endpoints_pattern"
  "unambiguous (util_row_pattern l)" "unambiguous (power_row_pattern l)"
  by (auto simp: wns_pattern_def tns_pattern_def whs_pattern_def endpoints_pattern_def
      util_row_pattern_def power_row_pattern_def unambiguous_lit space_not_value)

lemma and_then_assoc: "and_then (and_then m f) g = and_then m (\<lambda>x. and_then (f x) g)"
  by (cases m) simp_all

lemma map_of_dict_set: "map_of (dict_set d k v) k' = (if k' = k then Some v else map_of d k')"
  by (induction d) auto

lemma dict_set_same: "map_of d k = Some v \<Longrightarrow> dict_set d k v = d"
  by (induction d) (auto split: if_splits)

lemma dict_set_twice: "dict_set (dict_set d k v) k v' = dict_set d k v'"
  by (induction d) auto

lemma set_float_field:
  "map_of d key = Some dflt \<Longrightarrow>
   set_float (re_search re content) d key =
     and_then (float_field re content dflt) (\<lambda>x. Inr (dict_set d key x))"
  by (cases "re_search re content")
    (simp_all add: set_float_def float_field_def dict_set_same and_then_assoc)

lemma set_int_field:
  "map_of d key = Some dflt \<Longrightarrow>
   set_int (re_search re content) d key =
     and_then (int_field re content dflt) (\<lambda>x. Inr (dict_set d key x))"
  by (cases "re_search re content")
    (simp_all add: set_int_def int_field_def dict_set_same and_then_assoc)

lemma set_util_row:
  "map_of d key = Some util_entry_default \<Longrightarrow>
   set_util (re_search re content) d key =
     and_then (row_field re content) (\<lambda>e. Inr (dict_set d key e))"
  by (cases "re_search re content")
    (simp_all add: set_util_def row_field_def dict_set_same and_then_assoc dict_set2_def
      dict_item_def map_of_dict_set dict_set_twice util_entry_default_def)

lemma parse_timing_report_fields:
  "parse_timing_report (File content) =
     and_then (float_field wns_pattern content PNone) (\<lambda>w.
     and_then (float_field tns_pattern content PNone) (\<lambda>t.
     and_then (float_field whs_pattern content PNone) (\<lambda>h.
     and_then (int_field endpoints_pattern content (PInt 0)) (\<lambda>f.
     Inr [(''wns'', w), (''tns'', t), (''whs'', h), (''ths'', PNone), (''failing_endpoints'', f)]))))"
  unfolding parse_timing_report_def Let_def read_text_def timing_defaults_def
  by (simp add: set_float_field[where dflt=PNone] set_int_field[where dflt="PInt 0"] and_then_assoc)

lemma parse_power_report_fields:
  "parse_power_report (File content) =
     and_then (float_field total_pattern content (PInt 0)) (\<lambda>t.
     and_then (float_field dynamic_pattern content (PInt 0)) (\<lambda>d.
     and_then (float_field static_pattern content (PInt 0)) (\<lambda>s.
     Inr [(''total_power'', t), (''dynamic_power'', d), (''static_power'', s),
          (''confidence'', PStr ''Low'')])))"
  unfolding parse_power_report_def Let_def read_text_def power_defaults_def
  by (simp add: set_float_field[where dflt="PInt 0"] and_then_assoc)

lemma parse_utilization_report_fields:
  "parse_utilization_report (File content) =
     and_then (row_field lut_pattern content) (\<lambda>l.
     and_then (row_field ff_pattern content) (\<lambda>f.
     and_then (row_field bram_pattern content) (\<lambda>b.
     and_then (row_field dsp_pattern content) (\<lambda>d.
     Inr [(''lut'', l), (''ff'', f), (''bram'', b), (''dsp'', d)]))))"
  unfolding parse_utilization_report_def Let_def read_text_def util_defaults_def
  by (simp add: set_util_row and_then_assoc)

lemma group_classes_lit: "group_classes (lit l @ re) = group_classes re"
  by (induction l) (auto simp: lit_def)

lemma denotes_groups:
  "denotes re s caps rest \<Longrightarrow>
   list_all2 (\<lambda>p g. g \<noteq> [] \<and> (\<forall>c\<in>set g. p c)) (group_classes re) caps"
proof (induction re arbitrary: s caps)
  case Nil
  then show ?case by simp
next
  case (Cons x re)
  then show ?case by (cases x) auto
qed

lemma first_match_groups:
  "first_match re content caps \<Longrightarrow>
   list_all2 (\<lambda>p g. g \<noteq> [] \<and> (\<forall>c\<in>set g. p c)) (group_classes re) caps"
  unfolding first_match_def using denotes_groups by blast

lemma re_search_cases:
  assumes "unambiguous re"
  shows "(no_match re content \<and> re_search re content = None) \<or>
         (\<exists>caps. first_match re content caps \<and> re_search re content = Some caps)"
  using re_search_None_iff[of re content] re_search_Some_iff[OF assms, of content]
  by (cases "re_search re content") auto

lemma first_match_unique:
  "unambiguous re \<Longrightarrow> first_match re content caps \<Longrightarrow> first_match re content caps' \<Longrightarrow> caps = caps'"
  using re_search_Some_iff by (metis option.inject)

lemma first_match_not_no_match: "first_match re content caps \<Longrightarrow> \<not> no_match re content"
  unfolding first_match_def no_match_def by blast

lemma py_float_error: "py_float g = Inl e \<Longrightarrow> e = ValueError"
  by (auto simp: py_float_def split: list.splits if_splits option.splits)

lemma py_int_digits:
  assumes "g \<noteq> []" "\<forall>c\<in>set g. is_digit c"
  shows "py_int g = Inr (int (digits_val g))"
proof -
  obtain c t where g: "g = c # t" using assms(1) by (cases g) auto
  then have "is_digit c" using assms(2) by simp
  then have "c \<noteq> CHR ''-''" "c \<noteq> CHR ''+''" by (auto simp: is_digit_def)
  moreover have "digits_int g = Some (int (digits_val g))"
    using assms by (simp add: digits_int_def list_all_iff)
  ultimately show ?thesis using g by (simp add: py_int_def)
qed



subsection \<open>The outcome of a field, from the meaning of its pattern\<close>

lemma float_field_absent: "no_match re content \<Longrightarrow> float_field re content d = Inr d"
  by (simp add: float_field_def re_search_None_iff[THEN iffD2])

lemma float_field_present:
  "unambiguous re \<Longrightarrow> first_match re content [g] \<Longrightarrow>
   float_field re content d = and_then (py_float g) (\<lambda>v. Inr (PFloat v))"
  by (simp add: float_field_def re_search_Some_iff[THEN iffD2] m_group_def)

lemma int_field_absent: "no_match re content \<Longrightarrow> int_field re content d = Inr d"
  by (simp add: int_field_def re_search_None_iff[THEN iffD2])

lemma int_field_present:
  "unambiguous re \<Longrightarrow> first_match re content [g] \<Longrightarrow>
   int_field re content d = and_then (py_int g) (\<lambda>v. Inr (PInt v))"
  by (simp add: int_field_def re_search_Some_iff[THEN iffD2] m_group_def)

lemma row_field_absent: "no_match re content \<Longrightarrow> row_field re content = Inr util_entry_default"
  by (simp add: row_field_def re_search_None_iff[THEN iffD2])

lemma row_field_present:
  "unambiguous re \<Longrightarrow> first_match re content [u, a, p] \<Longrightarrow>
   row_field re content =
     and_then (py_int u) (\<lambda>used. and_then (py_int a) (\<lambda>avail. and_then (py_float p) (\<lambda>pct.
       Inr [(''used'', PInt used), (''available'', PInt avail), (''utilization'', PFloat pct)])))"
  by (simp add: row_field_def re_search_Some_iff[THEN iffD2] m_group_def)

lemma single_group:
  assumes "first_match re content caps" "length (group_classes re) = 1"
  obtains g where "caps = [g]"
proof -
  have "length caps = 1" using first_match_groups[OF assms(1)] assms(2)
    by (simp add: list_all2_lengthD[symmetric])
  then show ?thesis using that by (cases caps) auto
qed

lemma unconvertible_iff:
  assumes "unambiguous re" "first_match re content caps" "caps \<noteq> []"
  shows "unconvertible re content \<longleftrightarrow> py_float (last caps) = Inl ValueError"
proof
  assume "unconvertible re content"
  then obtain caps' where c: "first_match re content caps'" "py_float (last caps') = Inl ValueError"
    unfolding unconvertible_def by blast
  have "caps' = caps" using first_match_unique[OF assms(1) c(1) assms(2)] .
  then show "py_float (last caps) = Inl ValueError" using c(2) by simp
next
  assume "py_float (last caps) = Inl ValueError"
  then show "unconvertible re content" unfolding unconvertible_def using assms(2,3) by blast
qed

lemma not_unconvertible_absent: "no_match re content \<Longrightarrow> \<not> unconvertible re content"
  unfolding unconvertible_def using first_match_not_no_match by blast

lemma float_field_error:
  assumes "unambiguous re" "length (group_classes re) = 1"
  shows "float_field re content d = Inl e \<longleftrightarrow> e = ValueError \<and> unconvertible re content"
proof -
  consider (absent) "no_match re content"
    | (present) caps where "first_match re content caps"
    using re_search_cases[OF assms(1), of content] by fastforce
  then show ?thesis
  proof cases
    case absent
    then show ?thesis by (simp add: float_field_absent not_unconvertible_absent)
  next
    case (present caps)
    then obtain g where g: "caps = [g]" using single_group assms(2) by blast
    have u: "unconvertible re content \<longleftrightarrow> py_float g = Inl ValueError"
      using unconvertible_iff[OF assms(1) present] g by simp
    have f: "float_field re content d = and_then (py_float g) (\<lambda>v. Inr (PFloat v))"
      using float_field_present[OF assms(1)] present g by simp
    show ?thesis
    proof (cases "py_float g")
      case (Inl e')
      then have "e' = ValueError" by (rule py_float_error)
      then show ?thesis using Inl f u by auto
    next
      case (Inr v)
      then show ?thesis using f u by simp
    qed
  qed
qed

lemma triple_group:
  assumes "first_match re content caps" "group_classes re = [is_digit, is_digit, q]"
  obtains u a p where "caps = [u, a, p]" "u \<noteq> []" "\<forall>c\<in>set u. is_digit c"
    "a \<noteq> []" "\<forall>c\<in>set a. is_digit c" "p \<noteq> []" "\<forall>c\<in>set p. q c"
  using first_match_groups[OF assms(1)] assms(2) by (auto simp: list_all2_Cons1)

lemma row_field_value:
  assumes "unambiguous re" "group_classes re = [is_digit, is_digit, q]"
    and "first_match re content [u, a, p]"
  shows "row_field re content =
     and_then (py_float p) (\<lambda>pct. Inr [(''used'', PInt (int (digits_val u))),
        (''available'', PInt (int (digits_val a))), (''utilization'', PFloat pct)])"
proof -
  obtain u' a' p' where c: "[u, a, p] = [u', a', p']" "u' \<noteq> []" "\<forall>c\<in>set u'. is_digit c"
    "a' \<noteq> []" "\<forall>c\<in>set a'. is_digit c"
    using triple_group[OF assms(3,2)] by metis
  then have "py_int u = Inr (int (digits_val u))" "py_int a = Inr (int (digits_val a))"
    using py_int_digits by auto
  then show ?thesis using row_field_present[OF assms(1,3)] by simp
qed

lemma row_field_error:
  assumes "unambiguous re" "group_classes re = [is_digit, is_digit, q]"
  shows "row_field re content = Inl e \<longleftrightarrow> e = ValueError \<and> unconvertible re content"
proof -
  consider (absent) "no_match re content"
    | (present) caps where "first_match re content caps"
    using re_search_cases[OF assms(1), of content] by fastforce
  then show ?thesis
  proof cases
    case absent
    then show ?thesis by (simp add: row_field_absent not_unconvertible_absent)
  next
    case (present caps)
    then obtain u a p where g: "caps = [u, a, p]" using triple_group[OF present assms(2)] by metis
    have u: "unconvertible re content \<longleftrightarrow> py_float p = Inl ValueError"
      using unconvertible_iff[OF assms(1) present] g by simp
    note f = row_field_value[OF assms present[unfolded g]]
    show ?thesis
    proof (cases "py_float p")
      case (Inl e')
      then have "e' = ValueError" by (rule py_float_error)
      then show ?thesis using Inl f u by auto
    next
      case (Inr v)
      then show ?thesis using f u by simp
    qed
  qed
qed

lemma int_field_total:
  assumes "unambiguous re" "group_classes re = [is_digit]"
  shows "\<exists>x. int_field re content d = Inr x"
proof -
  consider (absent) "no_match re content"
    | (present) caps where "first_match re content caps"
    using re_search_cases[OF assms(1), of content] by fastforce
  then show ?thesis
  proof cases
    case absent
    then show ?thesis by (simp add: int_field_absent)
  next
    case (present caps)
    from first_match_groups[OF present] assms(2) obtain g where
      g: "caps = [g]" "g \<noteq> []" "\<forall>c\<in>set g. is_digit c"
      by (auto simp: list_all2_Cons1)
    then show ?thesis using int_field_present[OF assms(1), of content g d] present
      by (simp add: py_int_digits)
  qed
qed

lemma pattern_groups:
  "group_classes wns_pattern = [is_sign_digit_dot]"
  "group_classes tns_pattern = [is_sign_digit_dot]"
  "group_classes whs_pattern = [is_sign_digit_dot]"
  "group_classes endpoints_pattern = [is_digit]"
  "group_classes (util_row_pattern l) = [is_digit, is_digit, is_digit_dot]"
  "group_classes (power_row_pattern l) = [is_digit_dot]"
  by (simp_all add: wns_pattern_def tns_pattern_def whs_pattern_def endpoints_pattern_def
      util_row_pattern_def power_row_pattern_def group_classes_lit)

lemma timing_fields_facts:
  assumes "(k, P) \<in> set timing_fields"
  shows "unambiguous P" "length (group_classes P) = 1"
  using assms by (auto simp: timing_fields_def unambiguous_patterns pattern_groups)

lemma power_fields_facts:
  assumes "(k, P) \<in> set power_fields"
  shows "unambiguous P" "length (group_classes P) = 1" "group_classes P = [is_digit_dot]"
  using assms by (auto simp: power_fields_def total_pattern_def dynamic_pattern_def
      static_pattern_def unambiguous_patterns pattern_groups)

lemma utilization_rows_facts:
  assumes "(k, P) \<in> set utilization_rows"
  shows "unambiguous P" "group_classes P = [is_digit, is_digit, is_digit_dot]"
  using assms by (auto simp: utilization_rows_def lut_pattern_def ff_pattern_def
      bram_pattern_def dsp_pattern_def unambiguous_patterns pattern_groups)

lemma and_then_error_step:
  assumes "\<And>e. m = Inl e \<longleftrightarrow> e = ValueError \<and> U"
    and "\<And>x. m = Inr x \<Longrightarrow> (f x = Inl e \<longleftrightarrow> e = ValueError \<and> V)"
  shows "and_then m f = Inl e \<longleftrightarrow> e = ValueError \<and> (U \<or> V)"
proof (cases m)
  case (Inl e0)
  then have "e0 = ValueError \<and> U" using assms(1) by blast
  then show ?thesis using Inl by auto
next
  case (Inr x)
  then have "\<not> U" using assms(1)[of ValueError] by simp
  then show ?thesis using Inr assms(2)[OF Inr] by simp
qed

lemma timing_error_iff:
  "parse_timing_report (File content) = Inl e \<longleftrightarrow>
     e = ValueError \<and> (\<exists>(k, P)\<in>set timing_fields. unconvertible P content)"
proof -
  have E: "float_field P content PNone = Inl e \<longleftrightarrow> e = ValueError \<and> unconvertible P content"
    if "(k, P) \<in> set timing_fields" for k P e
    using float_field_error[OF timing_fields_facts[OF that]] .
  obtain f where F: "int_field endpoints_pattern content (PInt 0) = Inr f"
    using int_field_total[OF unambiguous_patterns(4) pattern_groups(4)] by blast
  have "parse_timing_report (File content) = Inl e \<longleftrightarrow>
      e = ValueError \<and> (unconvertible wns_pattern content \<or> (unconvertible tns_pattern content \<or>
        (unconvertible whs_pattern content \<or> False)))"
    unfolding parse_timing_report_fields
    apply (rule and_then_error_step, rule E[of "''wns''"], simp add: timing_fields_def)
    apply (rule and_then_error_step, rule E[of "''tns''"], simp add: timing_fields_def)
    apply (rule and_then_error_step, rule E[of "''whs''"], simp add: timing_fields_def)
    apply (simp add: F)
    done
  then show ?thesis by (simp add: timing_fields_def)
qed

lemma power_error_iff:
  "parse_power_report (File content) = Inl e \<longleftrightarrow>
     e = ValueError \<and> (\<exists>(k, P)\<in>set power_fields. unconvertible P content)"
proof -
  have E: "float_field P content (PInt 0) = Inl e \<longleftrightarrow> e = ValueError \<and> unconvertible P content"
    if "(k, P) \<in> set power_fields" for k P e
    using float_field_error[OF power_fields_facts(1,2)[OF that]] .
  have "parse_power_report (File content) = Inl e \<longleftrightarrow>
      e = ValueError \<and> (unconvertible total_pattern content \<or>
        (unconvertible dynamic_pattern content \<or> (unconvertible static_pattern content \<or> False)))"
    unfolding parse_power_report_fields
    apply (rule and_then_error_step, rule E[of "''total_power''"], simp add: power_fields_def)
    apply (rule and_then_error_step, rule E[of "''dynamic_power''"], simp add: power_fields_def)
    apply (rule and_then_error_step, rule E[of "''static_power''"], simp add: power_fields_def)
    apply simp
    done
  then show ?thesis by (simp add: power_fields_def)
qed

lemma utilization_error_iff:
  "parse_utilization_report (File content) = Inl e \<longleftrightarrow>
     e = ValueError \<and> (\<exists>(k, P)\<in>set utilization_rows. unconvertible P content)"
proof -
  have E: "row_field P content = Inl e \<longleftrightarrow> e = ValueError \<and> unconvertible P content"
    if "(k, P) \<in> set utilization_rows" for k P e
    using row_field_error[OF utilization_rows_facts[OF that]] .
  have "parse_utilization_report (File content) = Inl e \<longleftrightarrow>
      e = ValueError \<and> (unconvertible lut_pattern content \<or> (unconvertible ff_pattern content \<or>
        (unconvertible bram_pattern content \<or> (unconvertible dsp_pattern content \<or> False))))"
    unfolding parse_utilization_report_fields
    apply (rule and_then_error_step, rule E[of "''lut''"], simp add: utilization_rows_def)
    apply (rule and_then_error_step, rule E[of "''ff''"], simp add: utilization_rows_def)
    apply (rule and_then_error_step, rule E[of "''bram''"], simp add: utilization_rows_def)
    apply (rule and_then_error_step, rule E[of "''dsp''"], simp add: utilization_rows_def)
    apply simp
    done
  then show ?thesis by (simp add: utilization_rows_def)
qed

lemma and_then_Inr_iff: "and_then m f = Inr y \<longleftrightarrow> (\<exists>x. m = Inr x \<and> f x = Inr y)"
  by (cases m) simp_all

lemma timing_value:
  assumes "parse_timing_report (File content) = Inr r"
  obtains w t h f where
    "r = [(''wns'', w), (''tns'', t), (''whs'', h), (''ths'', PNone), (''failing_endpoints'', f)]"
    "float_field wns_pattern content PNone = Inr w"
    "float_field tns_pattern content PNone = Inr t"
    "float_field whs_pattern content PNone = Inr h"
    "int_field endpoints_pattern content (PInt 0) = Inr f"
  using assms unfolding parse_timing_report_fields and_then_Inr_iff by blast

lemma power_value:
  assumes "parse_power_report (File content) = Inr r"
  obtains t d s where
    "r = [(''total_power'', t), (''dynamic_power'', d), (''static_power'', s),
          (''confidence'', PStr ''Low'')]"
    "float_field total_pattern content (PInt 0) = Inr t"
    "float_field dynamic_pattern content (PInt 0) = Inr d"
    "float_field static_pattern content (PInt 0) = Inr s"
  using assms unfolding parse_power_report_fields and_then_Inr_iff by blast

lemma utilization_value:
  assumes "parse_utilization_report (File content) = Inr r"
  obtains l f b d where
    "r = [(''lut'', l), (''ff'', f), (''bram'', b), (''dsp'', d)]"
    "row_field lut_pattern content = Inr l"
    "row_field ff_pattern content = Inr f"
    "row_field bram_pattern content = Inr b"
    "row_field dsp_pattern content = Inr d"
  using assms unfolding parse_utilization_report_fields and_then_Inr_iff by blast

lemma timing_field_outcome:
  assumes "(k, P) \<in> set timing_fields" "float_field P content PNone = Inr x"
  shows "(\<exists>r. parse_timing_report (File content) = Inr r \<and> map_of r k = Some x) \<or>
         (parse_timing_report (File content) = Inl ValueError \<and>
          (\<exists>(k', P')\<in>set timing_fields. k' \<noteq> k \<and> unconvertible P' content))"
proof (cases "parse_timing_report (File content)")
  case (Inr r)
  have kp: "(k = ''wns'' \<and> P = wns_pattern) \<or> (k = ''tns'' \<and> P = tns_pattern) \<or>
            (k = ''whs'' \<and> P = whs_pattern)"
    using assms(1) by (simp add: timing_fields_def)
  have "map_of r k = Some x"
  proof (rule timing_value[OF Inr])
    fix w t h f
    assume r: "r = [(''wns'', w), (''tns'', t), (''whs'', h), (''ths'', PNone),
                    (''failing_endpoints'', f)]"
      and v: "float_field wns_pattern content PNone = Inr w"
        "float_field tns_pattern content PNone = Inr t"
        "float_field whs_pattern content PNone = Inr h"
    from kp show ?thesis
    proof (elim disjE conjE)
      assume "k = ''wns''" "P = wns_pattern"
      then show ?thesis using assms(2) v(1) r by simp
    next
      assume "k = ''tns''" "P = tns_pattern"
      then show ?thesis using assms(2) v(2) r by simp
    next
      assume "k = ''whs''" "P = whs_pattern"
      then show ?thesis using assms(2) v(3) r by simp
    qed
  qed
  then show ?thesis using Inr by simp
next
  case (Inl e)
  have "e = ValueError \<and> (\<exists>(k', P')\<in>set timing_fields. unconvertible P' content)"
    using timing_error_iff[of content e] Inl by simp
  then obtain k' P' where e: "e = ValueError" "(k', P') \<in> set timing_fields"
    "unconvertible P' content"
    by blast
  have "k' \<noteq> k"
  proof
    assume "k' = k"
    then have "P' = P" using assms(1) e(2) by (auto simp: timing_fields_def)
    then have "float_field P content PNone = Inl ValueError"
      using float_field_error[OF timing_fields_facts[OF assms(1)], of content PNone ValueError] e(3)
      by simp
    then show False using assms(2) by simp
  qed
  then have "\<exists>(k', P')\<in>set timing_fields. k' \<noteq> k \<and> unconvertible P' content"
    using e(2,3) by blast
  then show ?thesis using Inl e(1) by simp
qed

lemma power_field_outcome:
  assumes "(k, P) \<in> set power_fields" "float_field P content (PInt 0) = Inr x"
  shows "(\<exists>r. parse_power_report (File content) = Inr r \<and> map_of r k = Some x) \<or>
         (parse_power_report (File content) = Inl ValueError \<and>
          (\<exists>(k', P')\<in>set power_fields. k' \<noteq> k \<and> unconvertible P' content))"
proof (cases "parse_power_report (File content)")
  case (Inr r)
  have kp: "(k = ''total_power'' \<and> P = total_pattern) \<or>
            (k = ''dynamic_power'' \<and> P = dynamic_pattern) \<or>
            (k = ''static_power'' \<and> P = static_pattern)"
    using assms(1) by (simp add: power_fields_def)
  have "map_of r k = Some x"
  proof (rule power_value[OF Inr])
    fix t d s
    assume r: "r = [(''total_power'', t), (''dynamic_power'', d), (''static_power'', s),
                    (''confidence'', PStr ''Low'')]"
      and v: "float_field total_pattern content (PInt 0) = Inr t"
        "float_field dynamic_pattern content (PInt 0) = Inr d"
        "float_field static_pattern content (PInt 0) = Inr s"
    from kp show ?thesis
    proof (elim disjE conjE)
      assume "k = ''total_power''" "P = total_pattern"
      then show ?thesis using assms(2) v(1) r by simp
    next
      assume "k = ''dynamic_power''" "P = dynamic_pattern"
      then show ?thesis using assms(2) v(2) r by simp
    next
      assume "k = ''static_power''" "P = static_pattern"
      then show ?thesis using assms(2) v(3) r by simp
    qed
  qed
  then show ?thesis using Inr by simp
next
  case (Inl e)
  have "e = ValueError \<and> (\<exists>(k', P')\<in>set power_fields. unconvertible P' content)"
    using power_error_iff[of content e] Inl by simp
  then obtain k' P' where e: "e = ValueError" "(k', P') \<in> set power_fields"
    "unconvertible P' content"
    by blast
  have "k' \<noteq> k"
  proof
    assume "k' = k"
    then have "P' = P" using assms(1) e(2) by (auto simp: power_fields_def)
    then have "float_field P content (PInt 0) = Inl ValueError"
      using float_field_error[OF power_fields_facts(1,2)[OF assms(1)], of content "PInt 0" ValueError]
        e(3)
      by simp
    then show False using assms(2) by simp
  qed
  then have "\<exists>(k', P')\<in>set power_fields. k' \<noteq> k \<and> unconvertible P' content"
    using e(2,3) by blast
  then show ?thesis using Inl e(1) by simp
qed

lemma utilization_row_outcome:
  assumes "(k, P) \<in> set utilization_rows" "row_field P content = Inr x"
  shows "(\<exists>r. parse_utilization_report (File content) = Inr r \<and> map_of r k = Some x) \<or>
         (parse_utilization_report (File content) = Inl ValueError \<and>
          (\<exists>(k', P')\<in>set utilization_rows. k' \<noteq> k \<and> unconvertible P' content))"
proof (cases "parse_utilization_report (File content)")
  case (Inr r)
  have kp: "(k = ''lut'' \<and> P = lut_pattern) \<or> (k = ''ff'' \<and> P = ff_pattern) \<or>
            (k = ''bram'' \<and> P = bram_pattern) \<or> (k = ''dsp'' \<and> P = dsp_pattern)"
    using assms(1) by (simp add: utilization_rows_def)
  have "map_of r k = Some x"
  proof (rule utilization_value[OF Inr])
    fix l f b d
    assume r: "r = [(''lut'', l), (''ff'', f), (''bram'', b), (''dsp'', d)]"
      and v: "row_field lut_pattern content = Inr l"
        "row_field ff_pattern content = Inr f"
        "row_field bram_pattern content = Inr b"
        "row_field dsp_pattern content = Inr d"
    from kp show ?thesis
    proof (elim disjE conjE)
      assume "k = ''lut''" "P = lut_pattern"
      then show ?thesis using assms(2) v(1) r by simp
    next
      assume "k = ''ff''" "P = ff_pattern"
      then show ?thesis using assms(2) v(2) r by simp
    next
      assume "k = ''bram''" "P = bram_pattern"
      then show ?thesis using assms(2) v(3) r by simp
    next
      assume "k = ''dsp''" "P = dsp_pattern"
      then show ?thesis using assms(2) v(4) r by simp
    qed
  qed
  then show ?thesis using Inr by simp
next
  case (Inl e)
  have "e = ValueError \<and> (\<exists>(k', P')\<in>set utilization_rows. unconvertible P' content)"
    using utilization_error_iff[of content e] Inl by simp
  then obtain k' P' where e: "e = ValueError" "(k', P') \<in> set utilization_rows"
    "unconvertible P' content"
    by blast
  have "k' \<noteq> k"
  proof
    assume "k' = k"
    then have "P' = P" using assms(1) e(2) by (auto simp: utilization_rows_def)
    then have "row_field P content = Inl ValueError"
      using row_field_error[OF utilization_rows_facts[OF assms(1)], of content ValueError] e(3)
      by simp
    then show False using assms(2) by simp
  qed
  then have "\<exists>(k', P')\<in>set utilization_rows. k' \<noteq> k \<and> unconvertible P' content"
    using e(2,3) by blast
  then show ?thesis using Inl e(1) by simp
qed

lemma endpoints_outcome:
  assumes "int_field endpoints_pattern content (PInt 0) = Inr x"
  shows "(\<exists>r. parse_timing_report (File content) = Inr r \<and>
              map_of r ''failing_endpoints'' = Some x) \<or>
         (parse_timing_report (File content) = Inl ValueError \<and>
          (\<exists>(k', P')\<in>set timing_fields. unconvertible P' content))"
proof (cases "parse_timing_report (File content)")
  case (Inr r)
  have "map_of r ''failing_endpoints'' = Some x"
  proof (rule timing_value[OF Inr])
    fix w t h f
    assume r: "r = [(''wns'', w), (''tns'', t), (''whs'', h), (''ths'', PNone),
                    (''failing_endpoints'', f)]"
      and vf: "int_field endpoints_pattern content (PInt 0) = Inr f"
    show ?thesis using assms vf r by simp
  qed
  then show ?thesis using Inr by simp
next
  case (Inl e)
  have "e = ValueError \<and> (\<exists>(k', P')\<in>set timing_fields. unconvertible P' content)"
    using timing_error_iff[of content e] Inl by simp
  then show ?thesis using Inl by simp
qed

section \<open>The collector: file names and the scan\<close>

lemma glob_match_lits:
  "glob_match (map GChr l @ pat) s \<longleftrightarrow> (\<exists>t. s = l @ t \<and> glob_match pat t)"
proof (induction l arbitrary: s)
  case Nil
  then show ?case by simp
next
  case (Cons c l)
  then show ?case by (cases s) auto
qed

lemma glob_match_star:
  "glob_match (GStar # pat) s \<longleftrightarrow> (\<exists>a t. s = a @ t \<and> glob_match pat t)"
  by (auto simp: suffix_def) blast

lemma glob_pattern_keyword:
  assumes "CHR ''*'' \<notin> set kw"
  shows "glob_pattern (''*'' @ kw @ ''*.rpt'') = GStar # map GChr kw @ GStar # map GChr ''.rpt''"
  using assms by (auto simp: glob_pattern_def)

lemma keyword_glob_decomposition:
  assumes "CHR ''*'' \<notin> set kw"
  shows "glob_match (glob_pattern (''*'' @ kw @ ''*.rpt'')) name \<longleftrightarrow>
         (\<exists>a b. name = a @ kw @ b @ ''.rpt'')"
proof -
  have "glob_match (map GChr ''.rpt'') t \<longleftrightarrow> t = ''.rpt''" for t
    using glob_match_lits[of "''.rpt''" "[]" t] by auto
  then show ?thesis
    unfolding glob_pattern_keyword[OF assms]
    by (simp only: glob_match_star glob_match_lits) auto
qed

lemma keyword_before_suffix:
  assumes "CHR ''.'' \<notin> set kw" "\<not> set kw \<subseteq> set ''.rpt''"
  shows "(\<exists>a b. name = a @ kw @ b @ ''.rpt'') \<longleftrightarrow> sublist kw name \<and> suffix ''.rpt'' name"
proof
  assume "\<exists>a b. name = a @ kw @ b @ ''.rpt''"
  then obtain a b where n: "name = a @ kw @ b @ ''.rpt''" by blast
  have "sublist kw name" unfolding sublist_def n by blast
  moreover have "suffix ''.rpt'' name" unfolding suffix_def n by (metis append.assoc)
  ultimately show "sublist kw name \<and> suffix ''.rpt'' name" by simp
next
  assume h: "sublist kw name \<and> suffix ''.rpt'' name"
  then obtain ps ss where n: "name = ps @ kw @ ss" unfolding sublist_def by blast
  have s: "suffix ''.rpt'' (ps @ (kw @ ss))" using h n by simp
  have "suffix ''.rpt'' ss"
  proof -
    from s have "suffix ''.rpt'' (kw @ ss) \<or> (\<exists>r'. ''.rpt'' = r' @ (kw @ ss) \<and> suffix r' ps)"
      unfolding suffix_append by simp
    then have "suffix ''.rpt'' (kw @ ss)"
    proof
      assume "\<exists>r'. ''.rpt'' = r' @ (kw @ ss) \<and> suffix r' ps"
      then obtain r' where "''.rpt'' = r' @ kw @ ss" by auto
      then have "set ''.rpt'' = set (r' @ kw @ ss)" by (simp only:)
      then have "set kw \<subseteq> set ''.rpt''" by (simp only: set_append) blast
      then show ?thesis using assms(2) by simp
    qed simp
    then have "suffix ''.rpt'' ss \<or> (\<exists>r'. ''.rpt'' = r' @ ss \<and> suffix r' kw)"
      unfolding suffix_append by simp
    then show ?thesis
    proof
      assume "\<exists>r'. ''.rpt'' = r' @ ss \<and> suffix r' kw"
      then obtain r' where r: "''.rpt'' = r' @ ss" "suffix r' kw" by blast
      show ?thesis
      proof (cases r')
        case Nil
        then show ?thesis using r(1) by simp
      next
        case (Cons c r'')
        then have "c = CHR ''.''" using r(1) by simp
        moreover have "c \<in> set kw" using r(2) Cons by (auto simp: suffix_def)
        ultimately show ?thesis using assms(1) by simp
      qed
    qed simp
  qed
  then obtain b where "ss = b @ ''.rpt''" unfolding suffix_def by blast
  then show "\<exists>a b. name = a @ kw @ b @ ''.rpt''" using n by blast
qed

lemma keyword_glob:
  assumes "CHR ''*'' \<notin> set kw" "CHR ''.'' \<notin> set kw" "\<not> set kw \<subseteq> set ''.rpt''"
  shows "glob_match (glob_pattern (''*'' @ kw @ ''*.rpt'')) name \<longleftrightarrow>
         sublist kw name \<and> suffix ''.rpt'' name"
  using keyword_glob_decomposition[OF assms(1)] keyword_before_suffix[OF assms(2,3)] by simp

lemma category_globs:
  "glob_match (glob_pattern ''*timing*.rpt'') name \<longleftrightarrow> sublist ''timing'' name \<and> suffix ''.rpt'' name"
  "glob_match (glob_pattern ''*utilization*.rpt'') name \<longleftrightarrow>
     sublist ''utilization'' name \<and> suffix ''.rpt'' name"
  "glob_match (glob_pattern ''*power*.rpt'') name \<longleftrightarrow> sublist ''power'' name \<and> suffix ''.rpt'' name"
  using keyword_glob[of "''timing''" name] keyword_glob[of "''utilization''" name]
    keyword_glob[of "''power''" name]
  by simp_all

lemma glob_iff: "(name, f) \<in> set (glob dir pat) \<longleftrightarrow> (name, f) \<in> set dir \<and> glob_match (glob_pattern pat) name"
  by (auto simp: glob_def)

lemma rfind_last:
  assumes "c \<notin> set t"
  shows "rfind c (x @ c # t) = Some (length x)"
proof -
  have "takeWhile (\<lambda>y. y \<noteq> c) (rev t @ c # rev x) = rev t"
    using assms by (auto simp: takeWhile_append2 takeWhile_tail)
  then show ?thesis by (simp add: rfind_def)
qed

lemma stem_rpt: "x \<noteq> [] \<Longrightarrow> stem (x @ ''.rpt'') = x"
  using rfind_last[of "CHR ''.''" "''rpt''" x] by (simp add: stem_def)


lemma parse_each_Inr_all:
  "parse_each parse fs d = Inr d' \<Longrightarrow> \<forall>(n, f)\<in>set fs. \<exists>v. parse f = Inr v"
proof (induction fs arbitrary: d)
  case Nil
  then show ?case by simp
next
  case (Cons a fs)
  obtain n f where a: "a = (n, f)" by (cases a)
  from Cons.prems obtain v where v: "parse f = Inr v"
    "parse_each parse fs (dict_set d (stem n) v) = Inr d'"
    unfolding a by (cases "parse f") auto
  from Cons.IH[OF v(2)] show ?case using a v(1) by simp
qed

lemma parse_each_total:
  "\<forall>(n, f)\<in>set fs. \<exists>v. parse f = Inr v \<Longrightarrow> \<exists>d'. parse_each parse fs d = Inr d'"
proof (induction fs arbitrary: d)
  case Nil
  then show ?case by simp
next
  case (Cons a fs)
  obtain n f where a: "a = (n, f)" by (cases a)
  from Cons.prems obtain v where v: "parse f = Inr v" unfolding a by auto
  have "\<forall>(n, f)\<in>set fs. \<exists>v. parse f = Inr v" using Cons.prems by simp
  from Cons.IH[OF this] show ?case using a v by simp
qed

lemma parse_each_raises:
  "(n, f) \<in> set fs \<Longrightarrow> parse f = Inl e \<Longrightarrow> \<exists>e'. parse_each parse fs d = Inl e'"
proof (induction fs arbitrary: d)
  case Nil
  then show ?case by simp
next
  case (Cons a fs)
  obtain n' f' where a: "a = (n', f')" by (cases a)
  show ?case
  proof (cases "parse f'")
    case (Inl e0)
    then show ?thesis using a by simp
  next
    case (Inr v)
    then have "(n, f) \<in> set fs" using Cons.prems a by auto
    from Cons.IH[OF this Cons.prems(2)] show ?thesis using a Inr by simp
  qed
qed

lemma parse_each_map_of:
  assumes "parse_each parse fs d = Inr d'" "distinct (map (\<lambda>(n, f). stem n) fs)"
  shows "map_of d' k = Some v \<longleftrightarrow>
         (\<exists>(n, f)\<in>set fs. stem n = k \<and> parse f = Inr v) \<or>
         ((\<forall>(n, f)\<in>set fs. stem n \<noteq> k) \<and> map_of d k = Some v)"
  using assms
proof (induction fs arbitrary: d)
  case Nil
  then show ?case by simp
next
  case (Cons a fs)
  obtain n f where a: "a = (n, f)" by (cases a)
  from Cons.prems(1) obtain w where w: "parse f = Inr w"
    "parse_each parse fs (dict_set d (stem n) w) = Inr d'"
    unfolding a by (cases "parse f") auto
  have dist: "distinct (map (\<lambda>(n, f). stem n) fs)" and fresh: "\<forall>(n', f')\<in>set fs. stem n' \<noteq> stem n"
    using Cons.prems(2) a by (auto simp: image_iff)
  note IH = Cons.IH[OF w(2) dist]
  show ?case
  proof (cases "stem n = k")
    case True
    then have "\<forall>(n', f')\<in>set fs. stem n' \<noteq> k" using fresh by simp
    then have "map_of d' k = Some v \<longleftrightarrow> w = v"
      using IH True by (auto simp: map_of_dict_set)
    then show ?thesis using a w(1) True fresh by auto
  next
    case False
    then show ?thesis using IH a by (auto simp: map_of_dict_set)
  qed
qed

lemma rpt_name:
  assumes "suffix ''.rpt'' n" "n \<noteq> ''.rpt''"
  obtains x0 where "n = x0 @ ''.rpt''" "x0 \<noteq> []"
  using assms by (auto simp: suffix_def)

lemma selected_stems_distinct:
  assumes "distinct (map fst dir)" "\<forall>(n, f)\<in>set fs. suffix ''.rpt'' n \<and> n \<noteq> ''.rpt''"
    and "fs = filter P dir"
  shows "distinct (map (\<lambda>(n, f). stem n) fs)"
proof -
  have d: "distinct (map fst fs)" using assms(1,3) by (simp add: distinct_map_filter)
  have inj: "inj_on stem (fst ` set fs)"
  proof (rule inj_onI)
    fix x y assume x: "x \<in> fst ` set fs" and y: "y \<in> fst ` set fs" and e: "stem x = stem y"
    from x assms(2) have "suffix ''.rpt'' x" "x \<noteq> ''.rpt''" by auto
    then obtain x0 where x0: "x = x0 @ ''.rpt''" "x0 \<noteq> []" by (rule rpt_name)
    from y assms(2) have "suffix ''.rpt'' y" "y \<noteq> ''.rpt''" by auto
    then obtain y0 where y0: "y = y0 @ ''.rpt''" "y0 \<noteq> []" by (rule rpt_name)
    show "x = y" using e x0 y0 by (simp add: stem_rpt)
  qed
  have "distinct (map stem (map fst fs))"
    using d inj by (subst distinct_map) simp
  moreover have "map (\<lambda>(n, f). stem n) fs = map stem (map fst fs)"
    by (simp add: case_prod_unfold)
  ultimately show ?thesis by (simp only:)
qed

section \<open>Consequences for the claims\<close>










lemmas eval_defs =
  parse_timing_report_def parse_utilization_report_def parse_power_report_def read_text_def
  set_float_def set_int_def set_util_def dict_set2_def dict_item_def m_group_def
  py_float_def py_int_def digits_int_def decimal_value_def digits_val_def digit_val_def
  wns_pattern_def tns_pattern_def whs_pattern_def endpoints_pattern_def
  lut_pattern_def ff_pattern_def bram_pattern_def dsp_pattern_def util_row_pattern_def
  total_pattern_def dynamic_pattern_def static_pattern_def power_row_pattern_def
  lit_def re_match_def is_space_def is_digit_def is_digit_dot_def is_sign_digit_dot_def
  timing_defaults_def util_defaults_def util_entry_default_def power_defaults_def Let_def

lemma first_matchI: "unambiguous re \<Longrightarrow> re_search re content = Some caps \<Longrightarrow> first_match re content caps"
  by (simp add: re_search_Some_iff)

lemma no_matchI: "re_search re content = None \<Longrightarrow> no_match re content"
  by (simp add: re_search_None_iff)

lemma unconvertibleI:
  "unambiguous re \<Longrightarrow> re_search re content = Some caps \<Longrightarrow> caps \<noteq> [] \<Longrightarrow>
   py_float (last caps) = Inl ValueError \<Longrightarrow> unconvertible re content"
  unfolding unconvertible_def using first_matchI by blast

lemma analyze_raises_timing:
  assumes "(name, f) \<in> set (glob dir ''*timing*.rpt'')" "parse_timing_report f = Inl e"
  shows "\<exists>e'. analyze_all_reports now dir = Inl e'"
proof -
  obtain e' where "parse_each parse_timing_report (glob dir ''*timing*.rpt'') [] = Inl e'"
    using parse_each_raises[where parse=parse_timing_report, OF assms] by blast
  then show ?thesis by (simp add: analyze_all_reports_def)
qed

lemma analyze_raises_utilization:
  assumes "(name, f) \<in> set (glob dir ''*utilization*.rpt'')" "parse_utilization_report f = Inl e"
  shows "\<exists>e'. analyze_all_reports now dir = Inl e'"
proof -
  obtain e' where e: "parse_each parse_utilization_report (glob dir ''*utilization*.rpt'') [] = Inl e'"
    using parse_each_raises[where parse=parse_utilization_report, OF assms] by blast
  show ?thesis
    by (cases "parse_each parse_timing_report (glob dir ''*timing*.rpt'') []")
      (simp_all add: analyze_all_reports_def e)
qed

lemma analyze_raises_power:
  assumes "(name, f) \<in> set (glob dir ''*power*.rpt'')" "parse_power_report f = Inl e"
  shows "\<exists>e'. analyze_all_reports now dir = Inl e'"
proof -
  obtain e' where e: "parse_each parse_power_report (glob dir ''*power*.rpt'') [] = Inl e'"
    using parse_each_raises[where parse=parse_power_report, OF assms] by blast
  show ?thesis
    by (cases "parse_each parse_timing_report (glob dir ''*timing*.rpt'') []";
        cases "parse_each parse_utilization_report (glob dir ''*utilization*.rpt'') []")
      (simp_all add: analyze_all_reports_def e)
qed





section \<open>The scan, category by category\<close>

lemma sublist_not_in_category:
  "\<not> sublist ''timing'' ''.rpt''" "\<not> sublist ''utilization'' ''.rpt''" "\<not> sublist ''power'' ''.rpt''"
  by (simp_all add: sublist_code)

lemma scan_category:
  assumes "distinct (map fst dir)" "parse_each parse (glob dir pat) [] = Inr t"
    and g: "\<And>name. glob_match (glob_pattern pat) name \<longleftrightarrow> sublist kw name \<and> suffix ''.rpt'' name"
    and kw: "\<not> sublist kw ''.rpt''"
  shows "map_of t k = Some v \<longleftrightarrow>
         (\<exists>name f. (name, f) \<in> set dir \<and> sublist kw name \<and> suffix ''.rpt'' name \<and>
                   stem name = k \<and> parse f = Inr v)"
proof -
  have sel: "\<forall>(n, f)\<in>set (glob dir pat). suffix ''.rpt'' n \<and> n \<noteq> ''.rpt''"
  proof (intro ballI, clarify)
    fix n f assume "(n, f) \<in> set (glob dir pat)"
    then have "glob_match (glob_pattern pat) n" by (simp only: glob_iff)
    then have s: "sublist kw n" "suffix ''.rpt'' n" by (simp_all only: g)
    from s(1) kw have "n \<noteq> ''.rpt''" by blast
    with s(2) show "suffix ''.rpt'' n \<and> n \<noteq> ''.rpt''" by blast
  qed
  have "distinct (map (\<lambda>(n, f). stem n) (glob dir pat))"
    by (rule selected_stems_distinct[OF assms(1) sel]) (simp only: glob_def)
  from parse_each_map_of[OF assms(2) this, of k v]
  have "map_of t k = Some v \<longleftrightarrow> (\<exists>(n, f)\<in>set (glob dir pat). stem n = k \<and> parse f = Inr v)"
    by simp
  also have "\<dots> \<longleftrightarrow> (\<exists>n f. (n, f) \<in> set (glob dir pat) \<and> stem n = k \<and> parse f = Inr v)"
    by blast
  also have "\<dots> \<longleftrightarrow> (\<exists>name f. (name, f) \<in> set dir \<and> sublist kw name \<and> suffix ''.rpt'' name \<and>
                   stem name = k \<and> parse f = Inr v)"
    by (simp only: glob_iff g conj_assoc)
  finally show ?thesis .
qed

lemma analyze_Inr:
  assumes "analyze_all_reports now dir = Inr res"
  obtains t u p where
    "parse_each parse_timing_report (glob dir ''*timing*.rpt'') [] = Inr t"
    "parse_each parse_utilization_report (glob dir ''*utilization*.rpt'') [] = Inr u"
    "parse_each parse_power_report (glob dir ''*power*.rpt'') [] = Inr p"
    "res = \<lparr>res_timestamp = now, res_timing = t, res_utilization = u, res_power = p\<rparr>"
  using assms unfolding analyze_all_reports_def and_then_Inr_iff by blast

lemma analyze_total:
  assumes "\<forall>(n, f)\<in>set (glob dir ''*timing*.rpt''). \<exists>v. parse_timing_report f = Inr v"
    "\<forall>(n, f)\<in>set (glob dir ''*utilization*.rpt''). \<exists>v. parse_utilization_report f = Inr v"
    "\<forall>(n, f)\<in>set (glob dir ''*power*.rpt''). \<exists>v. parse_power_report f = Inr v"
  shows "\<exists>res. analyze_all_reports now dir = Inr res"
proof -
  obtain t where t: "parse_each parse_timing_report (glob dir ''*timing*.rpt'') [] = Inr t"
    using parse_each_total[OF assms(1)] by blast
  obtain u where u: "parse_each parse_utilization_report (glob dir ''*utilization*.rpt'') [] = Inr u"
    using parse_each_total[OF assms(2)] by blast
  obtain p where p: "parse_each parse_power_report (glob dir ''*power*.rpt'') [] = Inr p"
    using parse_each_total[OF assms(3)] by blast
  show ?thesis by (simp add: analyze_all_reports_def t u p)
qed

section \<open>The claims\<close>




text \<open>
  C2. A field whose pattern matches nowhere in the report text keeps its default whenever the
  parser returns: \<^verbatim>\<open>None\<close> for \<^verbatim>\<open>wns\<close>, \<^verbatim>\<open>tns\<close> and \<^verbatim>\<open>whs\<close>, \<^verbatim>\<open>0\<close> for the failing-endpoint
  count, \<^verbatim>\<open>0\<close> for the used, available and utilization entries of a resource, \<^verbatim>\<open>0\<close> for each
  power quantity. An absent field never makes a parser raise: the only error a parser raises
  on a readable report is \<^verbatim>\<open>ValueError\<close>, and it does so exactly because some field is present
  with a capture that does not convert. A report in which no pattern matches is therefore
  parsed to the record of all defaults.

  The parser may still fail on a report in which the field in question is absent:
  the counterexample below is a report without \<^verbatim>\<open>WNS(ns):\<close> on which \<^verbatim>\<open>parse_timing_report\<close> raises,
  because of its \<^verbatim>\<open>TNS(ns): 1.2.3\<close>.
\<close>

theorem C2_absent_field_keeps_default:
  "(\<forall>k P. (k, P) \<in> set timing_fields \<and> no_match P content \<longrightarrow>
      (\<exists>r. parse_timing_report (File content) = Inr r \<and> map_of r k = Some PNone) \<or>
      (parse_timing_report (File content) = Inl ValueError \<and>
       (\<exists>(k', P')\<in>set timing_fields. k' \<noteq> k \<and> unconvertible P' content))) \<and>
   (no_match endpoints_pattern content \<longrightarrow>
      (\<exists>r. parse_timing_report (File content) = Inr r \<and>
           map_of r ''failing_endpoints'' = Some (PInt 0)) \<or>
      (parse_timing_report (File content) = Inl ValueError \<and>
       (\<exists>(k', P')\<in>set timing_fields. unconvertible P' content))) \<and>
   (\<forall>k P. (k, P) \<in> set utilization_rows \<and> no_match P content \<longrightarrow>
      (\<exists>r. parse_utilization_report (File content) = Inr r \<and>
           map_of r k = Some [(''used'', PInt 0), (''available'', PInt 0),
                              (''utilization'', PInt 0)]) \<or>
      (parse_utilization_report (File content) = Inl ValueError \<and>
       (\<exists>(k', P')\<in>set utilization_rows. k' \<noteq> k \<and> unconvertible P' content))) \<and>
   (\<forall>k P. (k, P) \<in> set power_fields \<and> no_match P content \<longrightarrow>
      (\<exists>r. parse_power_report (File content) = Inr r \<and> map_of r k = Some (PInt 0)) \<or>
      (parse_power_report (File content) = Inl ValueError \<and>
       (\<exists>(k', P')\<in>set power_fields. k' \<noteq> k \<and> unconvertible P' content))) \<and>
   (\<forall>e. parse_timing_report (File content) = Inl e \<longrightarrow>
      e = ValueError \<and> (\<exists>(k, P)\<in>set timing_fields. unconvertible P content)) \<and>
   (\<forall>e. parse_utilization_report (File content) = Inl e \<longrightarrow>
      e = ValueError \<and> (\<exists>(k, P)\<in>set utilization_rows. unconvertible P content)) \<and>
   (\<forall>e. parse_power_report (File content) = Inl e \<longrightarrow>
      e = ValueError \<and> (\<exists>(k, P)\<in>set power_fields. unconvertible P content)) \<and>
   ((\<forall>(k, P)\<in>set timing_fields. no_match P content) \<and> no_match endpoints_pattern content \<longrightarrow>
      parse_timing_report (File content) =
        Inr [(''wns'', PNone), (''tns'', PNone), (''whs'', PNone), (''ths'', PNone),
             (''failing_endpoints'', PInt 0)]) \<and>
   ((\<forall>(k, P)\<in>set utilization_rows. no_match P content) \<longrightarrow>
      parse_utilization_report (File content) =
        Inr [(''lut'', [(''used'', PInt 0), (''available'', PInt 0), (''utilization'', PInt 0)]),
             (''ff'', [(''used'', PInt 0), (''available'', PInt 0), (''utilization'', PInt 0)]),
             (''bram'', [(''used'', PInt 0), (''available'', PInt 0), (''utilization'', PInt 0)]),
             (''dsp'', [(''used'', PInt 0), (''available'', PInt 0), (''utilization'', PInt 0)])]) \<and>
   ((\<forall>(k, P)\<in>set power_fields. no_match P content) \<longrightarrow>
      parse_power_report (File content) =
        Inr [(''total_power'', PInt 0), (''dynamic_power'', PInt 0), (''static_power'', PInt 0),
             (''confidence'', PStr ''Low'')])"
proof (intro conjI allI impI)
  fix k P
  assume h: "(k, P) \<in> set timing_fields \<and> no_match P content"
  then have "float_field P content PNone = Inr PNone" by (simp add: float_field_absent)
  with h show "(\<exists>r. parse_timing_report (File content) = Inr r \<and> map_of r k = Some PNone) \<or>
      (parse_timing_report (File content) = Inl ValueError \<and>
       (\<exists>(k', P')\<in>set timing_fields. k' \<noteq> k \<and> unconvertible P' content))"
    using timing_field_outcome by blast
next
  assume "no_match endpoints_pattern content"
  then have "int_field endpoints_pattern content (PInt 0) = Inr (PInt 0)"
    by (simp add: int_field_absent)
  then show "(\<exists>r. parse_timing_report (File content) = Inr r \<and>
           map_of r ''failing_endpoints'' = Some (PInt 0)) \<or>
      (parse_timing_report (File content) = Inl ValueError \<and>
       (\<exists>(k', P')\<in>set timing_fields. unconvertible P' content))"
    by (rule endpoints_outcome)
next
  fix k P
  assume h: "(k, P) \<in> set utilization_rows \<and> no_match P content"
  then have "row_field P content =
      Inr [(''used'', PInt 0), (''available'', PInt 0), (''utilization'', PInt 0)]"
    by (simp add: row_field_absent util_entry_default_def)
  with h show "(\<exists>r. parse_utilization_report (File content) = Inr r \<and>
           map_of r k = Some [(''used'', PInt 0), (''available'', PInt 0),
                              (''utilization'', PInt 0)]) \<or>
      (parse_utilization_report (File content) = Inl ValueError \<and>
       (\<exists>(k', P')\<in>set utilization_rows. k' \<noteq> k \<and> unconvertible P' content))"
    using utilization_row_outcome by blast
next
  fix k P
  assume h: "(k, P) \<in> set power_fields \<and> no_match P content"
  then have "float_field P content (PInt 0) = Inr (PInt 0)" by (simp add: float_field_absent)
  with h show "(\<exists>r. parse_power_report (File content) = Inr r \<and> map_of r k = Some (PInt 0)) \<or>
      (parse_power_report (File content) = Inl ValueError \<and>
       (\<exists>(k', P')\<in>set power_fields. k' \<noteq> k \<and> unconvertible P' content))"
    using power_field_outcome by blast
next
  fix e assume "parse_timing_report (File content) = Inl e"
  then show "e = ValueError" "\<exists>(k, P)\<in>set timing_fields. unconvertible P content"
    using timing_error_iff[of content e] by simp_all
next
  fix e assume "parse_utilization_report (File content) = Inl e"
  then show "e = ValueError" "\<exists>(k, P)\<in>set utilization_rows. unconvertible P content"
    using utilization_error_iff[of content e] by simp_all
next
  fix e assume "parse_power_report (File content) = Inl e"
  then show "e = ValueError" "\<exists>(k, P)\<in>set power_fields. unconvertible P content"
    using power_error_iff[of content e] by simp_all
next
  assume "(\<forall>(k, P)\<in>set timing_fields. no_match P content) \<and> no_match endpoints_pattern content"
  then show "parse_timing_report (File content) =
        Inr [(''wns'', PNone), (''tns'', PNone), (''whs'', PNone), (''ths'', PNone),
             (''failing_endpoints'', PInt 0)]"
    by (simp add: parse_timing_report_fields timing_fields_def float_field_absent int_field_absent)
next
  assume "\<forall>(k, P)\<in>set utilization_rows. no_match P content"
  then show "parse_utilization_report (File content) =
        Inr [(''lut'', [(''used'', PInt 0), (''available'', PInt 0), (''utilization'', PInt 0)]),
             (''ff'', [(''used'', PInt 0), (''available'', PInt 0), (''utilization'', PInt 0)]),
             (''bram'', [(''used'', PInt 0), (''available'', PInt 0), (''utilization'', PInt 0)]),
             (''dsp'', [(''used'', PInt 0), (''available'', PInt 0), (''utilization'', PInt 0)])]"
    by (simp add: parse_utilization_report_fields utilization_rows_def row_field_absent
        util_entry_default_def)
next
  assume "\<forall>(k, P)\<in>set power_fields. no_match P content"
  then show "parse_power_report (File content) =
        Inr [(''total_power'', PInt 0), (''dynamic_power'', PInt 0), (''static_power'', PInt 0),
             (''confidence'', PStr ''Low'')]"
    by (simp add: parse_power_report_fields power_fields_def float_field_absent)
qed

theorem C2_absent_field_keeps_default_witness:
  "(no_match wns_pattern ''TNS(ns): 0.5'' \<and>
    (\<exists>r. parse_timing_report (File ''TNS(ns): 0.5'') = Inr r \<and> map_of r ''wns'' = Some PNone)) \<and>
   (no_match endpoints_pattern ''TNS(ns): 0.5'' \<and>
    (\<exists>r. parse_timing_report (File ''TNS(ns): 0.5'') = Inr r \<and>
         map_of r ''failing_endpoints'' = Some (PInt 0))) \<and>
   (no_match ff_pattern ''CLB LUTs | 1000 | 0 | 5000 | 20.0'' \<and>
    (\<exists>r. parse_utilization_report (File ''CLB LUTs | 1000 | 0 | 5000 | 20.0'') = Inr r \<and>
         map_of r ''ff'' = Some [(''used'', PInt 0), (''available'', PInt 0),
                                 (''utilization'', PInt 0)])) \<and>
   (no_match static_pattern ''Dynamic (W) | 1.25'' \<and>
    (\<exists>r. parse_power_report (File ''Dynamic (W) | 1.25'') = Inr r \<and>
         map_of r ''static_power'' = Some (PInt 0))) \<and>
   (no_match wns_pattern ''no labels here'' \<and> no_match tns_pattern ''no labels here'' \<and>
    no_match whs_pattern ''no labels here'' \<and> no_match endpoints_pattern ''no labels here'' \<and>
    parse_timing_report (File ''no labels here'') =
      Inr [(''wns'', PNone), (''tns'', PNone), (''whs'', PNone), (''ths'', PNone),
           (''failing_endpoints'', PInt 0)])"
proof -
  note T = C2_absent_field_keeps_default
  have a1: "no_match wns_pattern ''TNS(ns): 0.5''" by (rule no_matchI) (simp add: eval_defs)
  have a2: "(''wns'', wns_pattern) \<in> set timing_fields" by (simp add: timing_fields_def)
  have a3: "parse_timing_report (File ''TNS(ns): 0.5'') \<noteq> Inl ValueError" by (simp add: eval_defs)
  have A: "\<exists>r. parse_timing_report (File ''TNS(ns): 0.5'') = Inr r \<and> map_of r ''wns'' = Some PNone"
    using T[of "''TNS(ns): 0.5''", THEN conjunct1, rule_format, of "''wns''" wns_pattern] a1 a2 a3
    by blast
  have b1: "no_match endpoints_pattern ''TNS(ns): 0.5''" by (rule no_matchI) (simp add: eval_defs)
  have B: "\<exists>r. parse_timing_report (File ''TNS(ns): 0.5'') = Inr r \<and>
         map_of r ''failing_endpoints'' = Some (PInt 0)"
    using T[of "''TNS(ns): 0.5''", THEN conjunct2, THEN conjunct1, rule_format] b1 a3 by blast
  have c1: "no_match ff_pattern ''CLB LUTs | 1000 | 0 | 5000 | 20.0''"
    by (rule no_matchI) (simp add: eval_defs)
  have c2: "(''ff'', ff_pattern) \<in> set utilization_rows" by (simp add: utilization_rows_def)
  have c3: "parse_utilization_report (File ''CLB LUTs | 1000 | 0 | 5000 | 20.0'') \<noteq> Inl ValueError"
    by (simp add: eval_defs)
  have C: "\<exists>r. parse_utilization_report (File ''CLB LUTs | 1000 | 0 | 5000 | 20.0'') = Inr r \<and>
         map_of r ''ff'' = Some [(''used'', PInt 0), (''available'', PInt 0),
                                 (''utilization'', PInt 0)]"
    using T[of "''CLB LUTs | 1000 | 0 | 5000 | 20.0''", THEN conjunct2, THEN conjunct2, THEN conjunct1,
        rule_format, of "''ff''" ff_pattern] c1 c2 c3
    by blast
  have d1: "no_match static_pattern ''Dynamic (W) | 1.25''" by (rule no_matchI) (simp add: eval_defs)
  have d2: "(''static_power'', static_pattern) \<in> set power_fields" by (simp add: power_fields_def)
  have d3: "parse_power_report (File ''Dynamic (W) | 1.25'') \<noteq> Inl ValueError"
    by (simp add: eval_defs)
  have D: "\<exists>r. parse_power_report (File ''Dynamic (W) | 1.25'') = Inr r \<and>
         map_of r ''static_power'' = Some (PInt 0)"
    using T[of "''Dynamic (W) | 1.25''", THEN conjunct2, THEN conjunct2, THEN conjunct2, THEN conjunct1,
        rule_format, of "''static_power''" static_pattern] d1 d2 d3
    by blast
  have e1: "\<forall>(k, P)\<in>set timing_fields. no_match P ''no labels here''"
    by (auto simp: timing_fields_def intro!: no_matchI) (simp_all add: eval_defs)
  have e2: "no_match endpoints_pattern ''no labels here''" by (rule no_matchI) (simp add: eval_defs)
  have E: "parse_timing_report (File ''no labels here'') =
      Inr [(''wns'', PNone), (''tns'', PNone), (''whs'', PNone), (''ths'', PNone),
           (''failing_endpoints'', PInt 0)]"
    using T[of "''no labels here''", THEN conjunct2, THEN conjunct2, THEN conjunct2, THEN conjunct2,
        THEN conjunct2, THEN conjunct2, THEN conjunct2, THEN conjunct1] e1 e2
    by blast
  have e3: "no_match wns_pattern ''no labels here'' \<and> no_match tns_pattern ''no labels here'' \<and>
    no_match whs_pattern ''no labels here''"
    using e1 by (simp add: timing_fields_def)
  show ?thesis using a1 A b1 B c1 C d1 D e3 e2 E by blast
qed

theorem C2_counterexample:
  "re_search wns_pattern ''TNS(ns): 1.2.3'' = None \<and>
   parse_timing_report (File ''TNS(ns): 1.2.3'') = Inl ValueError"
  by (simp add: eval_defs)

text \<open>
  C3. When the pattern of a field matches and the text it captures does not convert (a timing
  value \<^verbatim>\<open>-\<close> or \<^verbatim>\<open>1.2.3\<close>, a percentage \<^verbatim>\<open>1..5\<close>, a power value \<^verbatim>\<open>.\<close>), the parser raises
  \<^verbatim>\<open>ValueError\<close>; it does not fall back on the default. The error reaches the caller: a scan
  of a directory that holds such a report under a name of the matching category raises too.
\<close>

theorem C3_unconvertible_capture_raises:
  "((\<exists>(k, P)\<in>set timing_fields. unconvertible P content) \<longrightarrow>
      parse_timing_report (File content) = Inl ValueError) \<and>
   ((\<exists>(k, P)\<in>set utilization_rows. unconvertible P content) \<longrightarrow>
      parse_utilization_report (File content) = Inl ValueError) \<and>
   ((\<exists>(k, P)\<in>set power_fields. unconvertible P content) \<longrightarrow>
      parse_power_report (File content) = Inl ValueError) \<and>
   (\<forall>now dir name. (name, File content) \<in> set dir \<longrightarrow>
      (glob_match (glob_pattern ''*timing*.rpt'') name \<and>
       (\<exists>(k, P)\<in>set timing_fields. unconvertible P content) \<longrightarrow>
         (\<exists>e. analyze_all_reports now dir = Inl e)) \<and>
      (glob_match (glob_pattern ''*utilization*.rpt'') name \<and>
       (\<exists>(k, P)\<in>set utilization_rows. unconvertible P content) \<longrightarrow>
         (\<exists>e. analyze_all_reports now dir = Inl e)) \<and>
      (glob_match (glob_pattern ''*power*.rpt'') name \<and>
       (\<exists>(k, P)\<in>set power_fields. unconvertible P content) \<longrightarrow>
         (\<exists>e. analyze_all_reports now dir = Inl e)))"
proof -
  have t: "parse_timing_report (File content) = Inl ValueError"
    if "\<exists>(k, P)\<in>set timing_fields. unconvertible P content"
    using that timing_error_iff[of content ValueError] by simp
  have u: "parse_utilization_report (File content) = Inl ValueError"
    if "\<exists>(k, P)\<in>set utilization_rows. unconvertible P content"
    using that utilization_error_iff[of content ValueError] by simp
  have p: "parse_power_report (File content) = Inl ValueError"
    if "\<exists>(k, P)\<in>set power_fields. unconvertible P content"
    using that power_error_iff[of content ValueError] by simp
  have at: "\<exists>e. analyze_all_reports now dir = Inl e"
    if "(name, File content) \<in> set dir" "glob_match (glob_pattern ''*timing*.rpt'') name"
      "\<exists>(k, P)\<in>set timing_fields. unconvertible P content" for now dir name
    using analyze_raises_timing[of name "File content" dir ValueError now] that t
    by (simp add: glob_iff)
  have au: "\<exists>e. analyze_all_reports now dir = Inl e"
    if "(name, File content) \<in> set dir" "glob_match (glob_pattern ''*utilization*.rpt'') name"
      "\<exists>(k, P)\<in>set utilization_rows. unconvertible P content" for now dir name
    using analyze_raises_utilization[of name "File content" dir ValueError now] that u
    by (simp add: glob_iff)
  have ap: "\<exists>e. analyze_all_reports now dir = Inl e"
    if "(name, File content) \<in> set dir" "glob_match (glob_pattern ''*power*.rpt'') name"
      "\<exists>(k, P)\<in>set power_fields. unconvertible P content" for now dir name
    using analyze_raises_power[of name "File content" dir ValueError now] that p
    by (simp add: glob_iff)
  show ?thesis using t u p at au ap by blast
qed

theorem C3_unconvertible_capture_raises_witness:
  "(unconvertible wns_pattern ''WNS(ns): -'' \<and>
    parse_timing_report (File ''WNS(ns): -'') = Inl ValueError) \<and>
   (unconvertible wns_pattern ''WNS(ns): 1.2.3'' \<and>
    parse_timing_report (File ''WNS(ns): 1.2.3'') = Inl ValueError) \<and>
   (unconvertible lut_pattern ''CLB LUTs | 10 | 0 | 100 | 1..5'' \<and>
    parse_utilization_report (File ''CLB LUTs | 10 | 0 | 100 | 1..5'') = Inl ValueError) \<and>
   (unconvertible dynamic_pattern ''Dynamic (W) | .'' \<and>
    parse_power_report (File ''Dynamic (W) | .'') = Inl ValueError) \<and>
   (\<exists>e. analyze_all_reports ''2024-05-01T10:00:00''
          [(''ok_timing.rpt'', File ''WNS(ns): 0.5''), (''bad_timing.rpt'', File ''WNS(ns): -'')]
        = Inl e)"
proof -
  note T = C3_unconvertible_capture_raises
  have a1: "unconvertible wns_pattern ''WNS(ns): -''"
    by (rule unconvertibleI[OF unambiguous_patterns(1), of _ "[''-'']"]) (simp_all add: eval_defs)
  have a2: "(''wns'', wns_pattern) \<in> set timing_fields" by (simp add: timing_fields_def)
  have A: "parse_timing_report (File ''WNS(ns): -'') = Inl ValueError"
    using T[of "''WNS(ns): -''", THEN conjunct1] a1 a2 by blast
  have b1: "unconvertible wns_pattern ''WNS(ns): 1.2.3''"
    by (rule unconvertibleI[OF unambiguous_patterns(1), of _ "[''1.2.3'']"]) (simp_all add: eval_defs)
  have B: "parse_timing_report (File ''WNS(ns): 1.2.3'') = Inl ValueError"
    using T[of "''WNS(ns): 1.2.3''", THEN conjunct1] b1 a2 by blast
  have c0: "unambiguous lut_pattern" by (simp add: lut_pattern_def unambiguous_patterns)
  have c1: "unconvertible lut_pattern ''CLB LUTs | 10 | 0 | 100 | 1..5''"
    by (rule unconvertibleI[OF c0, of _ "[''10'', ''100'', ''1..5'']"]) (simp_all add: eval_defs)
  have c2: "(''lut'', lut_pattern) \<in> set utilization_rows" by (simp add: utilization_rows_def)
  have C: "parse_utilization_report (File ''CLB LUTs | 10 | 0 | 100 | 1..5'') = Inl ValueError"
    using T[of "''CLB LUTs | 10 | 0 | 100 | 1..5''", THEN conjunct2, THEN conjunct1] c1 c2 by blast
  have d0: "unambiguous dynamic_pattern" by (simp add: dynamic_pattern_def unambiguous_patterns)
  have d1: "unconvertible dynamic_pattern ''Dynamic (W) | .''"
    by (rule unconvertibleI[OF d0, of _ "[''.'']"]) (simp_all add: eval_defs)
  have d2: "(''dynamic_power'', dynamic_pattern) \<in> set power_fields" by (simp add: power_fields_def)
  have D: "parse_power_report (File ''Dynamic (W) | .'') = Inl ValueError"
    using T[of "''Dynamic (W) | .''", THEN conjunct2, THEN conjunct2, THEN conjunct1] d1 d2 by blast
  have e1: "glob_match (glob_pattern ''*timing*.rpt'') ''bad_timing.rpt''"
    by (simp add: glob_pattern_def)
  have E: "\<exists>e. analyze_all_reports ''2024-05-01T10:00:00''
          [(''ok_timing.rpt'', File ''WNS(ns): 0.5''), (''bad_timing.rpt'', File ''WNS(ns): -'')]
        = Inl e"
    using T[of "''WNS(ns): -''", THEN conjunct2, THEN conjunct2, THEN conjunct2, rule_format,
        of "''bad_timing.rpt''"
           "[(''ok_timing.rpt'', File ''WNS(ns): 0.5''), (''bad_timing.rpt'', File ''WNS(ns): -'')]",
        THEN conjunct1, rule_format, of "''2024-05-01T10:00:00''"]
      a1 a2 e1 by auto
  show ?thesis using a1 A b1 B c1 C d1 D E by blast
qed

text \<open>
  C4. The dashboard classifies a utilization percentage \<open>p\<close> as \<^verbatim>\<open>pass\<close> exactly when
  \<open>p < 80\<close>, as \<^verbatim>\<open>warning\<close> exactly when \<open>80 \<le> p < 95\<close> and as \<^verbatim>\<open>fail\<close> exactly when
  \<open>p \<ge> 95\<close>; the tile of the resource carries that class. The percentage is a number,
  an \<^verbatim>\<open>int\<close> or a \<^verbatim>\<open>float\<close>, as the utilization parser stores it.
\<close>

theorem C4_utilization_classes:
  assumes "py_num p = Some x"
  shows "(util_class p = Inr ''pass'' \<longleftrightarrow> x < 80) \<and>
         (util_class p = Inr ''warning'' \<longleftrightarrow> 80 \<le> x \<and> x < 95) \<and>
         (util_class p = Inr ''fail'' \<longleftrightarrow> 95 \<le> x) \<and>
         (\<forall>fmt latest_util resource entry.
            map_of latest_util resource = Some entry \<and> map_of entry ''utilization'' = Some p \<longrightarrow>
            util_tile fmt latest_util resource =
              Inr (unlines ([] # metric_tile
                     ('' '' @ (if x < 80 then ''pass'' else if x < 95 then ''warning'' else ''fail''))
                     (fmt (Some 1) x @ ''%'') (upper resource @ '' Utilization''))))"
proof -
  have c: "util_class p = Inr (if x < 80 then ''pass'' else if x < 95 then ''warning'' else ''fail'')"
    using assms by (simp add: util_class_def py_lt_def)
  have f: "format_f fmt 1 p = Inr (fmt (Some 1) x)" for fmt
    using assms by (cases p) (auto simp: format_f_def py_num_def)
  have t: "util_tile fmt latest_util resource =
              Inr (unlines ([] # metric_tile
                     ('' '' @ (if x < 80 then ''pass'' else if x < 95 then ''warning'' else ''fail''))
                     (fmt (Some 1) x @ ''%'') (upper resource @ '' Utilization'')))"
    if "map_of latest_util resource = Some entry" "map_of entry ''utilization'' = Some p"
    for fmt latest_util resource entry
  proof -
    have "resource \<in> set (map fst latest_util)"
      using that(1) by (metis map_of_eq_None_iff option.distinct(1) set_map)
    then show ?thesis using that c f[of fmt]
      by (simp add: util_tile_def dict_item_def del: set_map)
  qed
  show ?thesis using c t by auto
qed

theorem C4_utilization_classes_witness:
  "py_num (PFloat 80) = Some 80 \<and> util_class (PFloat 80) = Inr ''warning'' \<and>
   util_class (PFloat (799 / 10)) = Inr ''pass'' \<and> util_class (PFloat 95) = Inr ''fail'' \<and>
   util_class (PInt 0) = Inr ''pass''"
proof -
  have a: "py_num (PFloat 80) = Some 80" by (simp add: py_num_def)
  have b: "py_num (PFloat (799 / 10)) = Some (799 / 10)" by (simp add: py_num_def)
  have c: "py_num (PFloat 95) = Some 95" by (simp add: py_num_def)
  have d: "py_num (PInt 0) = Some 0" by (simp add: py_num_def)
  show ?thesis
    using a C4_utilization_classes[OF a] C4_utilization_classes[OF b]
      C4_utilization_classes[OF c] C4_utilization_classes[OF d]
    by simp
qed




text \<open>
  C6. The scan of a directory puts a file in a category exactly when its name contains the
  keyword of the category (\<^verbatim>\<open>timing\<close>, \<^verbatim>\<open>utilization\<close>, \<^verbatim>\<open>power\<close>, compared character by
  character, so case matters) and ends in \<^verbatim>\<open>.rpt\<close>. The stem of such a name is the name
  without the final \<^verbatim>\<open>.rpt\<close>. When the scan returns, each category mapping holds under a key
  \<open>k\<close> the value \<open>v\<close> exactly when some file of the category has stem \<open>k\<close> and the parser of the
  category returns \<open>v\<close> on it (file names in a directory being distinct). The scan returns
  whenever the parser of the category returns on every file of each category.
\<close>

theorem C6_files_by_keyword_and_stem:
  "((name, f) \<in> set (glob dir ''*timing*.rpt'') \<longleftrightarrow>
      (name, f) \<in> set dir \<and> sublist ''timing'' name \<and> suffix ''.rpt'' name) \<and>
   ((name, f) \<in> set (glob dir ''*utilization*.rpt'') \<longleftrightarrow>
      (name, f) \<in> set dir \<and> sublist ''utilization'' name \<and> suffix ''.rpt'' name) \<and>
   ((name, f) \<in> set (glob dir ''*power*.rpt'') \<longleftrightarrow>
      (name, f) \<in> set dir \<and> sublist ''power'' name \<and> suffix ''.rpt'' name) \<and>
   (suffix ''.rpt'' name \<and> name \<noteq> ''.rpt'' \<longrightarrow> stem name @ ''.rpt'' = name) \<and>
   (distinct (map fst dir) \<and> analyze_all_reports now dir = Inr res \<longrightarrow>
      (\<forall>k v. map_of (res_timing res) k = Some v \<longleftrightarrow>
         (\<exists>name f. (name, f) \<in> set dir \<and> sublist ''timing'' name \<and> suffix ''.rpt'' name \<and>
                   stem name = k \<and> parse_timing_report f = Inr v)) \<and>
      (\<forall>k v. map_of (res_utilization res) k = Some v \<longleftrightarrow>
         (\<exists>name f. (name, f) \<in> set dir \<and> sublist ''utilization'' name \<and> suffix ''.rpt'' name \<and>
                   stem name = k \<and> parse_utilization_report f = Inr v)) \<and>
      (\<forall>k v. map_of (res_power res) k = Some v \<longleftrightarrow>
         (\<exists>name f. (name, f) \<in> set dir \<and> sublist ''power'' name \<and> suffix ''.rpt'' name \<and>
                   stem name = k \<and> parse_power_report f = Inr v))) \<and>
   ((\<forall>(name, f)\<in>set dir.
        (sublist ''timing'' name \<and> suffix ''.rpt'' name \<longrightarrow> (\<exists>v. parse_timing_report f = Inr v)) \<and>
        (sublist ''utilization'' name \<and> suffix ''.rpt'' name \<longrightarrow>
           (\<exists>v. parse_utilization_report f = Inr v)) \<and>
        (sublist ''power'' name \<and> suffix ''.rpt'' name \<longrightarrow> (\<exists>v. parse_power_report f = Inr v))) \<longrightarrow>
      (\<exists>res. analyze_all_reports now dir = Inr res))"
proof (intro conjI impI)
  show "(name, f) \<in> set (glob dir ''*timing*.rpt'') \<longleftrightarrow>
      (name, f) \<in> set dir \<and> sublist ''timing'' name \<and> suffix ''.rpt'' name"
    by (simp add: glob_iff category_globs)
  show "(name, f) \<in> set (glob dir ''*utilization*.rpt'') \<longleftrightarrow>
      (name, f) \<in> set dir \<and> sublist ''utilization'' name \<and> suffix ''.rpt'' name"
    by (simp add: glob_iff category_globs)
  show "(name, f) \<in> set (glob dir ''*power*.rpt'') \<longleftrightarrow>
      (name, f) \<in> set dir \<and> sublist ''power'' name \<and> suffix ''.rpt'' name"
    by (simp add: glob_iff category_globs)
next
  assume "suffix ''.rpt'' name \<and> name \<noteq> ''.rpt''"
  then obtain x0 where "name = x0 @ ''.rpt''" "x0 \<noteq> []" using rpt_name by blast
  then show "stem name @ ''.rpt'' = name" by (simp add: stem_rpt)
next
  assume h: "distinct (map fst dir) \<and> analyze_all_reports now dir = Inr res"
  then have d: "distinct (map fst dir)" and a: "analyze_all_reports now dir = Inr res" by simp_all
  from analyze_Inr[OF a] obtain t u p where r:
    "parse_each parse_timing_report (glob dir ''*timing*.rpt'') [] = Inr t"
    "parse_each parse_utilization_report (glob dir ''*utilization*.rpt'') [] = Inr u"
    "parse_each parse_power_report (glob dir ''*power*.rpt'') [] = Inr p"
    "res = \<lparr>res_timestamp = now, res_timing = t, res_utilization = u, res_power = p\<rparr>"
    by blast
  show "\<forall>k v. map_of (res_timing res) k = Some v \<longleftrightarrow>
         (\<exists>name f. (name, f) \<in> set dir \<and> sublist ''timing'' name \<and> suffix ''.rpt'' name \<and>
                   stem name = k \<and> parse_timing_report f = Inr v)"
    using scan_category[OF d r(1) category_globs(1) sublist_not_in_category(1)] r(4) by simp
  show "\<forall>k v. map_of (res_utilization res) k = Some v \<longleftrightarrow>
         (\<exists>name f. (name, f) \<in> set dir \<and> sublist ''utilization'' name \<and> suffix ''.rpt'' name \<and>
                   stem name = k \<and> parse_utilization_report f = Inr v)"
    using scan_category[OF d r(2) category_globs(2) sublist_not_in_category(2)] r(4) by simp
  show "\<forall>k v. map_of (res_power res) k = Some v \<longleftrightarrow>
         (\<exists>name f. (name, f) \<in> set dir \<and> sublist ''power'' name \<and> suffix ''.rpt'' name \<and>
                   stem name = k \<and> parse_power_report f = Inr v)"
    using scan_category[OF d r(3) category_globs(3) sublist_not_in_category(3)] r(4) by simp
next
  assume h: "\<forall>(name, f)\<in>set dir.
        (sublist ''timing'' name \<and> suffix ''.rpt'' name \<longrightarrow> (\<exists>v. parse_timing_report f = Inr v)) \<and>
        (sublist ''utilization'' name \<and> suffix ''.rpt'' name \<longrightarrow>
           (\<exists>v. parse_utilization_report f = Inr v)) \<and>
        (sublist ''power'' name \<and> suffix ''.rpt'' name \<longrightarrow> (\<exists>v. parse_power_report f = Inr v))"
  show "\<exists>res. analyze_all_reports now dir = Inr res"
  proof (rule analyze_total)
    show "\<forall>(n, f)\<in>set (glob dir ''*timing*.rpt''). \<exists>v. parse_timing_report f = Inr v"
    proof (intro ballI, clarify)
      fix n f assume "(n, f) \<in> set (glob dir ''*timing*.rpt'')"
      then have "(n, f) \<in> set dir" "sublist ''timing'' n \<and> suffix ''.rpt'' n"
        by (simp_all only: glob_iff category_globs)
      with h show "\<exists>v. parse_timing_report f = Inr v" by blast
    qed
    show "\<forall>(n, f)\<in>set (glob dir ''*utilization*.rpt''). \<exists>v. parse_utilization_report f = Inr v"
    proof (intro ballI, clarify)
      fix n f assume "(n, f) \<in> set (glob dir ''*utilization*.rpt'')"
      then have "(n, f) \<in> set dir" "sublist ''utilization'' n \<and> suffix ''.rpt'' n"
        by (simp_all only: glob_iff category_globs)
      with h show "\<exists>v. parse_utilization_report f = Inr v" by blast
    qed
    show "\<forall>(n, f)\<in>set (glob dir ''*power*.rpt''). \<exists>v. parse_power_report f = Inr v"
    proof (intro ballI, clarify)
      fix n f assume "(n, f) \<in> set (glob dir ''*power*.rpt'')"
      then have "(n, f) \<in> set dir" "sublist ''power'' n \<and> suffix ''.rpt'' n"
        by (simp_all only: glob_iff category_globs)
      with h show "\<exists>v. parse_power_report f = Inr v" by blast
    qed
  qed
qed

theorem C6_files_by_keyword_and_stem_witness:
  "(''top_timing_summary.rpt'', File ''WNS(ns): 0.5'') \<in>
     set (glob [(''top_timing_summary.rpt'', File ''WNS(ns): 0.5''), (''Timing.rpt'', File ''WNS(ns): -''),
                (''timing.txt'', File ''WNS(ns): -''), (''power.rpt'', File ''Dynamic (W) | 1.5'')]
           ''*timing*.rpt'') \<and>
   stem ''top_timing_summary.rpt'' @ ''.rpt'' = ''top_timing_summary.rpt'' \<and>
   distinct (map fst [(''top_timing_summary.rpt'', File ''WNS(ns): 0.5''), (''Timing.rpt'', File ''WNS(ns): -''),
                (''timing.txt'', File ''WNS(ns): -''), (''power.rpt'', File ''Dynamic (W) | 1.5'')]) \<and>
   (\<exists>res. analyze_all_reports ''2024-05-01T10:00:00''
            [(''top_timing_summary.rpt'', File ''WNS(ns): 0.5''), (''Timing.rpt'', File ''WNS(ns): -''),
             (''timing.txt'', File ''WNS(ns): -''), (''power.rpt'', File ''Dynamic (W) | 1.5'')] = Inr res \<and>
      map_of (res_timing res) ''top_timing_summary'' =
        Some [(''wns'', PFloat (1 / 2)), (''tns'', PNone), (''whs'', PNone), (''ths'', PNone),
              (''failing_endpoints'', PInt 0)] \<and>
      map_of (res_power res) ''power'' =
        Some [(''total_power'', PInt 0), (''dynamic_power'', PFloat (3 / 2)), (''static_power'', PInt 0),
              (''confidence'', PStr ''Low'')])"
proof -
  define D where "D = [(''top_timing_summary.rpt'', File ''WNS(ns): 0.5''), (''Timing.rpt'', File ''WNS(ns): -''),
                (''timing.txt'', File ''WNS(ns): -''), (''power.rpt'', File ''Dynamic (W) | 1.5'')]"
  have mem: "(''top_timing_summary.rpt'', File ''WNS(ns): 0.5'') \<in> set D"
    "(''power.rpt'', File ''Dynamic (W) | 1.5'') \<in> set D" by (simp_all add: D_def)
  have kw: "sublist ''timing'' ''top_timing_summary.rpt''" "suffix ''.rpt'' ''top_timing_summary.rpt''"
    "sublist ''power'' ''power.rpt''" "suffix ''.rpt'' ''power.rpt''"
    by (simp_all add: sublist_code suffix_to_prefix)
  have d: "distinct (map fst D)" by (simp add: D_def)
  have p1: "parse_timing_report (File ''WNS(ns): 0.5'') =
       Inr [(''wns'', PFloat (1 / 2)), (''tns'', PNone), (''whs'', PNone), (''ths'', PNone),
              (''failing_endpoints'', PInt 0)]" by (simp add: eval_defs)
  have p2: "parse_power_report (File ''Dynamic (W) | 1.5'') =
       Inr [(''total_power'', PInt 0), (''dynamic_power'', PFloat (3 / 2)), (''static_power'', PInt 0),
              (''confidence'', PStr ''Low'')]" by (simp add: eval_defs)
  have all: "\<forall>(name, f)\<in>set D.
        (sublist ''timing'' name \<and> suffix ''.rpt'' name \<longrightarrow> (\<exists>v. parse_timing_report f = Inr v)) \<and>
        (sublist ''utilization'' name \<and> suffix ''.rpt'' name \<longrightarrow>
           (\<exists>v. parse_utilization_report f = Inr v)) \<and>
        (sublist ''power'' name \<and> suffix ''.rpt'' name \<longrightarrow> (\<exists>v. parse_power_report f = Inr v))"
    by (simp add: D_def p1 p2 sublist_code suffix_to_prefix)
  note T = C6_files_by_keyword_and_stem[of "''top_timing_summary.rpt''" "File ''WNS(ns): 0.5''" D
      "''2024-05-01T10:00:00''"]
  have g: "(''top_timing_summary.rpt'', File ''WNS(ns): 0.5'') \<in> set (glob D ''*timing*.rpt'')"
    by (rule T[of undefined, THEN conjunct1, THEN iffD2]) (intro conjI mem kw)
  have s: "stem ''top_timing_summary.rpt'' @ ''.rpt'' = ''top_timing_summary.rpt''"
    by (rule T[of undefined, THEN conjunct2, THEN conjunct2, THEN conjunct2, THEN conjunct1, THEN mp])
      (simp add: kw)
  have "\<exists>res. analyze_all_reports ''2024-05-01T10:00:00'' D = Inr res"
    by (rule T[of undefined, THEN conjunct2, THEN conjunct2, THEN conjunct2, THEN conjunct2,
          THEN conjunct2, THEN mp]) (rule all)
  then obtain res where res: "analyze_all_reports ''2024-05-01T10:00:00'' D = Inr res" ..
  have st: "stem ''top_timing_summary.rpt'' = ''top_timing_summary''" "stem ''power.rpt'' = ''power''"
    using stem_rpt[of "''top_timing_summary''"] stem_rpt[of "''power''"] by simp_all
  note S = T[of res, THEN conjunct2, THEN conjunct2, THEN conjunct2, THEN conjunct2, THEN conjunct1,
      THEN mp, OF conjI[OF d res]]
  have m1: "map_of (res_timing res) ''top_timing_summary'' =
        Some [(''wns'', PFloat (1 / 2)), (''tns'', PNone), (''whs'', PNone), (''ths'', PNone),
              (''failing_endpoints'', PInt 0)]"
    by (rule S[THEN conjunct1, THEN spec, THEN spec, THEN iffD2])
      (rule exI[of _ "''top_timing_summary.rpt''"], rule exI[of _ "File ''WNS(ns): 0.5''"],
       intro conjI mem(1) kw(1,2) st(1) p1)
  have m2: "map_of (res_power res) ''power'' =
        Some [(''total_power'', PInt 0), (''dynamic_power'', PFloat (3 / 2)), (''static_power'', PInt 0),
              (''confidence'', PStr ''Low'')]"
    by (rule S[THEN conjunct2, THEN conjunct2, THEN spec, THEN spec, THEN iffD2])
      (rule exI[of _ "''power.rpt''"], rule exI[of _ "File ''Dynamic (W) | 1.5''"],
       intro conjI mem(2) kw(3,4) st(2) p2)
  show ?thesis
    unfolding D_def[symmetric] by (intro conjI exI[of _ res] g s d res m1 m2)
qed

end
